theory Spec2Isabelle
  imports Main "HOL-Library.AList"
begin

section \<open>Python values, exceptions and dictionaries\<close>

text \<open>
  Messages are whatever \<^verbatim>\<open>json.loads\<close> returns, and payloads handed to the producer are
  arbitrary Python dictionaries. \<open>PObj\<close> is a value that JSON cannot encode (a datetime,
  say); it carries the result of \<^verbatim>\<open>str()\<close> on it, \<open>None\<close> when \<^verbatim>\<open>str()\<close> itself raises.
  A dictionary is an association list in insertion order, the first binding of a key
  being the effective one. Floats are left out.
\<close>

datatype pyval =
    PNone
  | PBool bool
  | PInt int
  | PStr string
  | PList "pyval list"
  | PDict "(string \<times> pyval) list"
  | PObj "string option"

datatype exn =
    KeyError
  | TypeError
  | AttributeError
  | JSONDecodeError
  | UnicodeDecodeError
  | AMQPError
  | OperationalError
  | IntegrityError

text \<open>Truthiness, as \<^verbatim>\<open>if not message\<close> tests it.\<close>

fun truthy :: "pyval \<Rightarrow> bool" where
  "truthy PNone = False"
| "truthy (PBool b) = b"
| "truthy (PInt n) = (n \<noteq> 0)"
| "truthy (PStr s) = (s \<noteq> [])"
| "truthy (PList xs) = (xs \<noteq> [])"
| "truthy (PDict kvs) = (kvs \<noteq> [])"
| "truthy (PObj s) = True"

text \<open>\<^verbatim>\<open>d.get(k, default)\<close>: only a dictionary has the method.\<close>

fun py_get :: "pyval \<Rightarrow> string \<Rightarrow> pyval \<Rightarrow> exn + pyval" where
  "py_get (PDict kvs) k dflt = (case map_of kvs k of None \<Rightarrow> Inr dflt | Some v \<Rightarrow> Inr v)"
| "py_get v k dflt = Inl AttributeError"

text \<open>\<^verbatim>\<open>d[k]\<close> with a string key: \<^verbatim>\<open>KeyError\<close> on a dictionary without the key,
  \<^verbatim>\<open>TypeError\<close> on every other kind of value.\<close>

fun py_item :: "pyval \<Rightarrow> string \<Rightarrow> exn + pyval" where
  "py_item (PDict kvs) k = (case map_of kvs k of None \<Rightarrow> Inl KeyError | Some v \<Rightarrow> Inr v)"
| "py_item v k = Inl TypeError"

fun is_substring :: "string \<Rightarrow> string \<Rightarrow> bool" where
  "is_substring p [] = (p = [])"
| "is_substring p (c # cs) = (take (length p) (c # cs) = p \<or> is_substring p cs)"

text \<open>\<^verbatim>\<open>k in d\<close> with a string \<open>k\<close>: a key test on a dictionary, a membership test on a
  list, a substring test on a string, \<^verbatim>\<open>TypeError\<close> otherwise.\<close>

fun py_in :: "string \<Rightarrow> pyval \<Rightarrow> exn + bool" where
  "py_in k (PDict kvs) = Inr (map_of kvs k \<noteq> None)"
| "py_in k (PList xs) = Inr (PStr k \<in> set xs)"
| "py_in k (PStr s) = Inr (is_substring k s)"
| "py_in k v = Inl TypeError"

text \<open>\<^verbatim>\<open>d[k] = v\<close> on a dictionary (the only use in the source is on a received message
  that has already answered \<^verbatim>\<open>.get\<close>).\<close>

fun py_setitem :: "pyval \<Rightarrow> string \<Rightarrow> pyval \<Rightarrow> exn + pyval" where
  "py_setitem (PDict kvs) k v = Inr (PDict (AList.update k v kvs))"
| "py_setitem d k v = Inl TypeError"

text \<open>\<^verbatim>\<open>x + 1\<close> and \<^verbatim>\<open>x < n\<close> and \<^verbatim>\<open>x <= n\<close> for an integer \<open>n\<close>: defined on integers
  and booleans (a bool is an int in Python), \<^verbatim>\<open>TypeError\<close> otherwise.\<close>

fun py_int :: "pyval \<Rightarrow> exn + int" where
  "py_int (PInt n) = Inr n"
| "py_int (PBool b) = Inr (if b then 1 else 0)"
| "py_int v = Inl TypeError"

subsection \<open>JSON encoding\<close>

text \<open>
  \<^verbatim>\<open>json.dumps(message, default=str)\<close>: a value JSON cannot encode is replaced by its
  \<^verbatim>\<open>str()\<close>; when that raises, so does \<open>dumps\<close> (\<open>None\<close> here). A message body on the
  wire is the text of a JSON value, or text that \<^verbatim>\<open>json.loads\<close> rejects (\<open>Garbled\<close>), or
  bytes that \<^verbatim>\<open>body.decode('utf-8')\<close> rejects (\<open>NotUtf8\<close>). \<open>loads\<close> is
  \<^verbatim>\<open>json.loads(body.decode('utf-8'))\<close>.
\<close>

primrec all_some :: "'a option list \<Rightarrow> 'a list option" where
  "all_some [] = Some []"
| "all_some (x # xs) =
     (case x of None \<Rightarrow> None
      | Some y \<Rightarrow> (case all_some xs of None \<Rightarrow> None | Some ys \<Rightarrow> Some (y # ys)))"

primrec all_bound :: "('k \<times> 'a option) list \<Rightarrow> ('k \<times> 'a) list option" where
  "all_bound [] = Some []"
| "all_bound (x # xs) =
     (case snd x of None \<Rightarrow> None
      | Some y \<Rightarrow> (case all_bound xs of None \<Rightarrow> None | Some ys \<Rightarrow> Some ((fst x, y) # ys)))"

primrec dumps :: "pyval \<Rightarrow> pyval option" where
  "dumps PNone = Some PNone"
| "dumps (PBool b) = Some (PBool b)"
| "dumps (PInt n) = Some (PInt n)"
| "dumps (PStr s) = Some (PStr s)"
| "dumps (PList xs) = map_option PList (all_some (map dumps xs))"
| "dumps (PDict kvs) = map_option PDict (all_bound (map (map_prod id dumps) kvs))"
| "dumps (PObj s) = map_option PStr s"

datatype body = Garbled | NotUtf8 | Text pyval

fun loads :: "body \<Rightarrow> exn + pyval" where
  "loads Garbled = Inl JSONDecodeError"
| "loads NotUtf8 = Inl UnicodeDecodeError"
| "loads (Text v) = Inr v"

section \<open>messaging/rabbitmq\_client.py: RabbitMQClient\<close>

text \<open>
  The client object together with the broker it talks to. \<open>connection_open\<close> is
  \<^verbatim>\<open>self.connection and not self.connection.is_closed\<close>, \<open>channel_set\<close> is
  \<^verbatim>\<open>self.channel is not None\<close>. The broker side is the content of each queue and four
  switches saying whether the next connect, declare, publish and get succeed. A failed
  \<^verbatim>\<open>queue_declare\<close> is an AMQP channel error, after which the channel is closed and every
  later call on it raises. \<open>ops\<close> records the \<^verbatim>\<open>basic_get\<close> and \<^verbatim>\<open>basic_publish\<close> calls
  that reached the broker.
\<close>

datatype broker_op = Get string | Publish string body

record rabbit =
  connection_open :: bool
  channel_set :: bool
  channel_open :: bool
  link_up :: bool
  declare_ok :: bool
  publish_ok :: bool
  get_ok :: bool
  queues :: "string \<Rightarrow> body list"
  ops :: "broker_op list"

definition connect :: "rabbit \<Rightarrow> rabbit" where
  "connect r =
     (if link_up r
      then r\<lparr>connection_open := True, channel_set := True, channel_open := True\<rparr>
      else r\<lparr>connection_open := False, channel_set := False, channel_open := False\<rparr>)"

definition ensure_connection :: "rabbit \<Rightarrow> rabbit" where
  "ensure_connection r = (if \<not> connection_open r then connect r else r)"

text \<open>The channel calls, which raise.\<close>

definition queue_declare :: "string \<Rightarrow> rabbit \<Rightarrow> exn + rabbit" where
  "queue_declare q r =
     (if connection_open r \<and> channel_open r \<and> declare_ok r then Inr r else Inl AMQPError)"

definition basic_publish :: "string \<Rightarrow> body \<Rightarrow> rabbit \<Rightarrow> exn + rabbit" where
  "basic_publish q b r =
     (if connection_open r \<and> channel_open r \<and> publish_ok r
      then Inr (r\<lparr>queues := (queues r)(q := queues r q @ [b]), ops := ops r @ [Publish q b]\<rparr>)
      else Inl AMQPError)"

text \<open>\<^verbatim>\<open>basic_get(queue, auto_ack=True)\<close>: the broker removes the message as it hands it
  over.\<close>

definition basic_get :: "string \<Rightarrow> rabbit \<Rightarrow> exn + (body option \<times> rabbit)" where
  "basic_get q r =
     (if connection_open r \<and> channel_open r \<and> get_ok r
      then (case queues r q of
              [] \<Rightarrow> Inr (None, r\<lparr>ops := ops r @ [Get q]\<rparr>)
            | b # bs \<Rightarrow> Inr (Some b, r\<lparr>queues := (queues r)(q := bs), ops := ops r @ [Get q]\<rparr>))
      else Inl AMQPError)"

text \<open>\<^verbatim>\<open>declare_queue\<close> catches every exception of its body.\<close>

definition declare_queue :: "string \<Rightarrow> rabbit \<Rightarrow> rabbit" where
  "declare_queue q r =
     (let r1 = ensure_connection r in
      if channel_set r1
      then (case queue_declare q r1 of Inr r2 \<Rightarrow> r2 | Inl e \<Rightarrow> r1\<lparr>channel_open := False\<rparr>)
      else r1)"

text \<open>The body of the \<^verbatim>\<open>try\<close> block of \<^verbatim>\<open>send_message\<close>, which may raise, and
  \<^verbatim>\<open>send_message\<close> itself, whose handler turns every exception into \<^verbatim>\<open>False\<close>. The state
  is returned beside the result, since an exception does not undo what was done before
  it.\<close>

definition send_message_try :: "string \<Rightarrow> pyval \<Rightarrow> rabbit \<Rightarrow> (exn + bool) \<times> rabbit" where
  "send_message_try queue_name message r =
     (let r1 = ensure_connection r in
      if \<not> channel_set r1 then (Inr False, r1)
      else
        let r2 = declare_queue queue_name r1 in
        case dumps message of
          None \<Rightarrow> (Inl TypeError, r2)
        | Some message_body \<Rightarrow>
            (case basic_publish queue_name (Text message_body) r2 of
               Inl e \<Rightarrow> (Inl e, r2)
             | Inr r3 \<Rightarrow> (Inr True, r3)))"

definition send_message :: "string \<Rightarrow> pyval \<Rightarrow> rabbit \<Rightarrow> bool \<times> rabbit" where
  "send_message queue_name message r =
     (case send_message_try queue_name message r of
        (Inr b, r') \<Rightarrow> (b, r')
      | (Inl e, r') \<Rightarrow> (False, r'))"

text \<open>\<^verbatim>\<open>receive_message\<close>: \<open>None\<close> when there is no channel, when the queue is empty and
  when anything raises, the decoding of a body already taken from the queue included.\<close>

definition receive_message_try :: "string \<Rightarrow> rabbit \<Rightarrow> (exn + pyval option) \<times> rabbit" where
  "receive_message_try queue_name r =
     (let r1 = ensure_connection r in
      if \<not> channel_set r1 then (Inr None, r1)
      else
        let r2 = declare_queue queue_name r1 in
        case basic_get queue_name r2 of
          Inl e \<Rightarrow> (Inl e, r2)
        | Inr (None, r3) \<Rightarrow> (Inr None, r3)
        | Inr (Some b, r3) \<Rightarrow>
            (case loads b of Inl e \<Rightarrow> (Inl e, r3) | Inr message \<Rightarrow> (Inr (Some message), r3)))"

definition receive_message :: "string \<Rightarrow> rabbit \<Rightarrow> pyval option \<times> rabbit" where
  "receive_message queue_name r =
     (case receive_message_try queue_name r of
        (Inr m, r') \<Rightarrow> (m, r')
      | (Inl e, r') \<Rightarrow> (None, r'))"

section \<open>database/sql\_connection.py and database/nosql\_connection.py\<close>

text \<open>
  The relational store: whether a connection can be opened, whether statements on an
  open session succeed, and the rows of table \<^verbatim>\<open>users\<close> (columns \<^verbatim>\<open>name\<close> and \<^verbatim>\<open>email\<close>;
  \<^verbatim>\<open>id\<close> and \<^verbatim>\<open>created_at\<close> are filled in by the database and play no part here). Both
  switches stay as they are for the length of one call.
\<close>

record user_row =
  name :: string
  email :: string

record pg_store =
  reachable :: bool
  statements_ok :: bool
  users :: "user_row list"

datatype session = Session

definition test_connection :: "pg_store \<Rightarrow> bool" where
  "test_connection p = reachable p"

text \<open>\<^verbatim>\<open>get_session_with_retry\<close>: the argument of \<open>session_attempts\<close> counts the attempts
  still to make, so \<^verbatim>\<open>attempt == retries\<close> is the case of none left after this one.
  Falling out of the loop (only with \<^verbatim>\<open>retries = 0\<close>) returns Python's \<^verbatim>\<open>None\<close>. The
  sleeps between attempts are not modelled.\<close>

primrec session_attempts :: "nat \<Rightarrow> pg_store \<Rightarrow> exn + session option" where
  "session_attempts 0 p = Inr None"
| "session_attempts (Suc k) p =
     (if test_connection p then Inr (Some Session)
      else if k = 0 then Inl OperationalError
      else session_attempts k p)"

definition get_session_with_retry :: "nat \<Rightarrow> pg_store \<Rightarrow> exn + session option" where
  "get_session_with_retry retries p = session_attempts retries p"

definition check_database_health :: "pg_store \<Rightarrow> bool" where
  "check_database_health p = reachable p"

text \<open>\<^verbatim>\<open>db.query(User).filter(User.email == e).first()\<close> on a session: a method call on
  \<^verbatim>\<open>None\<close> raises, a failing statement raises, otherwise the first matching row.\<close>

definition query_first :: "session option \<Rightarrow> pg_store \<Rightarrow> pyval \<Rightarrow> exn + user_row option" where
  "query_first db p e =
     (case db of
        None \<Rightarrow> Inl AttributeError
      | Some s \<Rightarrow>
          if \<not> statements_ok p then Inl OperationalError
          else Inr (List.find (\<lambda>u. PStr (email u) = e) (users p)))"

text \<open>\<^verbatim>\<open>db.add(User(name=n, email=e)); db.commit()\<close>: both columns are strings declared
  \<^verbatim>\<open>nullable=False\<close>, \<^verbatim>\<open>email\<close> is \<^verbatim>\<open>unique=True\<close>. A value that is not a string is taken to
  be rejected.\<close>

definition add_commit :: "session option \<Rightarrow> pg_store \<Rightarrow> pyval \<Rightarrow> pyval \<Rightarrow> exn + pg_store" where
  "add_commit db p n e =
     (case db of
        None \<Rightarrow> Inl AttributeError
      | Some s \<Rightarrow>
          if \<not> statements_ok p then Inl OperationalError
          else (case (n, e) of
                  (PStr n', PStr e') \<Rightarrow>
                    if e' \<in> set (map email (users p)) then Inl IntegrityError
                    else Inr (p\<lparr>users := users p @ [\<lparr>name = n', email = e'\<rparr>]\<rparr>)
                | _ \<Rightarrow> Inl IntegrityError))"

text \<open>The document store: whether \<^verbatim>\<open>client.admin.command("ping")\<close> succeeds, whether
  \<^verbatim>\<open>insert_one\<close> succeeds, and the documents of collection \<^verbatim>\<open>logs\<close>.\<close>

record mongo_store =
  ping_ok :: bool
  insert_ok :: bool
  logs :: "pyval list"

definition ping :: "mongo_store \<Rightarrow> exn + unit" where
  "ping m = (if ping_ok m then Inr () else Inl OperationalError)"

definition insert_one :: "pyval \<Rightarrow> mongo_store \<Rightarrow> exn + mongo_store" where
  "insert_one doc m = (if insert_ok m then Inr (m\<lparr>logs := logs m @ [doc]\<rparr>) else Inl OperationalError)"

section \<open>main.py: the producer\<close>

text \<open>The process state of the service: both stores, the shared broker client and the
  reading of the clock (\<^verbatim>\<open>datetime.now().isoformat()\<close>).\<close>

record world =
  pg :: pg_store
  mongo :: mongo_store
  rabbitmq :: rabbit
  now :: string

definition FALLBACK_QUEUES :: "(string \<times> string) list" where
  "FALLBACK_QUEUES =
     [(''postgres'', ''postgres_fallback_queue''),
      (''mongo'', ''mongo_fallback_queue''),
      (''users'', ''users_fallback_queue''),
      (''logs'', ''logs_fallback_queue'')]"

text \<open>\<^verbatim>\<open>FALLBACK_QUEUES[k]\<close>.\<close>

definition fallback_queue :: "string \<Rightarrow> exn + string" where
  "fallback_queue k = (case map_of FALLBACK_QUEUES k of None \<Rightarrow> Inl KeyError | Some q \<Rightarrow> Inr q)"

definition send_to_fallback_queue :: "string \<Rightarrow> pyval \<Rightarrow> string \<Rightarrow> world \<Rightarrow> bool \<times> world" where
  "send_to_fallback_queue queue_name data operation_type w =
     (let fallback_data =
            PDict [(''operation_type'', PStr operation_type),
                   (''timestamp'', PStr (now w)),
                   (''data'', data),
                   (''retry_count'', PInt 0)];
          (success, r) = send_message queue_name fallback_data (rabbitmq w)
      in (success, w\<lparr>rabbitmq := r\<rparr>))"

text \<open>The two write endpoints. \<open>HTTPException\<close> carries the status code; \<open>Unhandled\<close> is
  an exception that leaves the handler.\<close>

datatype response =
    Stored
  | FallbackUsed string
  | HTTPException nat
  | Unhandled exn

definition create_user_primary :: "string \<Rightarrow> string \<Rightarrow> pg_store \<Rightarrow> exn + (response \<times> pg_store)" where
  "create_user_primary n e p =
     (case get_session_with_retry 2 p of
        Inl x \<Rightarrow> Inl x
      | Inr db \<Rightarrow>
          (case query_first db p (PStr e) of
             Inl x \<Rightarrow> Inl x
           | Inr (Some existing_user) \<Rightarrow> Inr (HTTPException 409, p)
           | Inr None \<Rightarrow>
               (case add_commit db p (PStr n) (PStr e) of
                  Inl x \<Rightarrow> Inl x
                | Inr p' \<Rightarrow> Inr (Stored, p'))))"

definition create_user :: "string \<Rightarrow> string \<Rightarrow> world \<Rightarrow> response \<times> world" where
  "create_user n e w =
     (case create_user_primary n e (pg w) of
        Inr (resp, p') \<Rightarrow> (resp, w\<lparr>pg := p'\<rparr>)
      | Inl x \<Rightarrow>
          (case fallback_queue ''users'' of
             Inl k \<Rightarrow> (Unhandled k, w)
           | Inr queue_name \<Rightarrow>
               (let (fallback_success, w') =
                      send_to_fallback_queue queue_name
                        (PDict [(''name'', PStr n), (''email'', PStr e)]) ''create_user'' w
                in if fallback_success then (FallbackUsed queue_name, w')
                   else (HTTPException 503, w'))))"

definition create_log :: "string \<Rightarrow> pyval \<Rightarrow> world \<Rightarrow> response \<times> world" where
  "create_log act details w =
     (case insert_one (PDict [(''action'', PStr act), (''details'', details),
                              (''timestamp'', PStr (now w))]) (mongo w) of
        Inr m' \<Rightarrow> (Stored, w\<lparr>mongo := m'\<rparr>)
      | Inl x \<Rightarrow>
          (case fallback_queue ''logs'' of
             Inl k \<Rightarrow> (Unhandled k, w)
           | Inr queue_name \<Rightarrow>
               (let (fallback_success, w') =
                      send_to_fallback_queue queue_name
                        (PDict [(''action'', PStr act), (''details'', details)]) ''create_log'' w
                in if fallback_success then (FallbackUsed queue_name, w')
                   else (HTTPException 503, w'))))"

section \<open>main.py: FallbackWorker\<close>

text \<open>The replay of one payload against its store. The handler of each function turns
  every exception into \<^verbatim>\<open>False\<close>; a replay that raised has written nothing.\<close>

definition create_user_from_queue_try :: "pyval \<Rightarrow> pg_store \<Rightarrow> exn + (bool \<times> pg_store)" where
  "create_user_from_queue_try data p =
     (case get_session_with_retry 2 p of
        Inl x \<Rightarrow> Inl x
      | Inr db \<Rightarrow>
          (case py_item data ''email'' of
             Inl x \<Rightarrow> Inl x
           | Inr e \<Rightarrow>
               (case query_first db p e of
                  Inl x \<Rightarrow> Inl x
                | Inr (Some existing_user) \<Rightarrow> Inr (True, p)
                | Inr None \<Rightarrow>
                    (case py_item data ''name'' of
                       Inl x \<Rightarrow> Inl x
                     | Inr n \<Rightarrow>
                         (case add_commit db p n e of
                            Inl x \<Rightarrow> Inl x
                          | Inr p' \<Rightarrow> Inr (True, p'))))))"

definition create_user_from_queue :: "pyval \<Rightarrow> pg_store \<Rightarrow> bool \<times> pg_store" where
  "create_user_from_queue data p =
     (case create_user_from_queue_try data p of Inr res \<Rightarrow> res | Inl x \<Rightarrow> (False, p))"

definition create_log_from_queue_try :: "pyval \<Rightarrow> string \<Rightarrow> mongo_store \<Rightarrow> exn + (bool \<times> mongo_store)" where
  "create_log_from_queue_try data t m =
     (case py_item data ''action'' of
        Inl x \<Rightarrow> Inl x
      | Inr a \<Rightarrow>
          (case py_item data ''details'' of
             Inl x \<Rightarrow> Inl x
           | Inr d \<Rightarrow>
               (case insert_one (PDict [(''action'', a), (''details'', d), (''timestamp'', PStr t),
                                        (''processed_from_queue'', PBool True)]) m of
                  Inl x \<Rightarrow> Inl x
                | Inr m' \<Rightarrow> Inr (True, m'))))"

definition create_log_from_queue :: "pyval \<Rightarrow> string \<Rightarrow> mongo_store \<Rightarrow> bool \<times> mongo_store" where
  "create_log_from_queue data t m =
     (case create_log_from_queue_try data t m of Inr res \<Rightarrow> res | Inl x \<Rightarrow> (False, m))"

text \<open>\<^verbatim>\<open>_requeue_with_retry\<close> has no handler of its own: the addition raises when the
  stored counter is not a number, before anything is sent.\<close>

definition max_retries :: int where
  "max_retries = 5"

definition requeue_with_retry :: "string \<Rightarrow> pyval \<Rightarrow> world \<Rightarrow> exn + world" where
  "requeue_with_retry queue_name message w =
     (case py_get message ''retry_count'' (PInt 0) of
        Inl x \<Rightarrow> Inl x
      | Inr c \<Rightarrow>
          (case py_int c of
             Inl x \<Rightarrow> Inl x
           | Inr n \<Rightarrow>
               (let retry_count = n + 1 in
                if retry_count \<le> max_retries
                then (case py_setitem message ''retry_count'' (PInt retry_count) of
                        Inl x \<Rightarrow> Inl x
                      | Inr m1 \<Rightarrow>
                          (case py_setitem m1 ''last_retry'' (PStr (now w)) of
                             Inl x \<Rightarrow> Inl x
                           | Inr m2 \<Rightarrow>
                               Inr (w\<lparr>rabbitmq := snd (send_message queue_name m2 (rabbitmq w))\<rparr>)))
                else (let error_queue = queue_name @ ''_dead_letter''
                      in Inr (w\<lparr>rabbitmq := snd (send_message error_queue message (rabbitmq w))\<rparr>)))))"

text \<open>One pass through the body of \<^verbatim>\<open>while True\<close> in \<^verbatim>\<open>_process_users_queue\<close> and in
  \<^verbatim>\<open>_process_logs_queue\<close>: \<open>Break\<close> leaves the loop (the \<^verbatim>\<open>break\<close> statements, the one of
  the handler included), \<open>Continue\<close> goes round again. The counter \<^verbatim>\<open>processed\<close> only
  feeds the log.\<close>

datatype loop = Break world | Continue world

definition users_queue_step :: "string \<Rightarrow> world \<Rightarrow> loop" where
  "users_queue_step queue_name w =
     (let (message, r) = receive_message queue_name (rabbitmq w);
          w1 = w\<lparr>rabbitmq := r\<rparr>
      in case message of
           None \<Rightarrow> Break w1
         | Some m \<Rightarrow>
             if \<not> truthy m then Break w1
             else
               (case py_get m ''data'' (PDict []) of
                  Inl x \<Rightarrow> Break w1
                | Inr data \<Rightarrow>
                    (case py_get m ''operation_type'' (PStr ''unknown'') of
                       Inl x \<Rightarrow> Break w1
                     | Inr operation_type \<Rightarrow>
                         if operation_type = PStr ''create_user''
                         then
                           (let (success, p) = create_user_from_queue data (pg w1);
                                w2 = w1\<lparr>pg := p\<rparr>
                            in if success
                               then (case py_get data ''email'' PNone of
                                       Inl x \<Rightarrow> Break w2
                                     | Inr e \<Rightarrow> Continue w2)
                               else (case requeue_with_retry queue_name m w2 of
                                       Inl x \<Rightarrow> Break w2
                                     | Inr w3 \<Rightarrow> Continue w3))
                         else Continue w1)))"

definition logs_queue_step :: "string \<Rightarrow> world \<Rightarrow> loop" where
  "logs_queue_step queue_name w =
     (let (message, r) = receive_message queue_name (rabbitmq w);
          w1 = w\<lparr>rabbitmq := r\<rparr>
      in case message of
           None \<Rightarrow> Break w1
         | Some m \<Rightarrow>
             if \<not> truthy m then Break w1
             else
               (case py_get m ''data'' (PDict []) of
                  Inl x \<Rightarrow> Break w1
                | Inr data \<Rightarrow>
                    (case py_get m ''operation_type'' (PStr ''unknown'') of
                       Inl x \<Rightarrow> Break w1
                     | Inr operation_type \<Rightarrow>
                         if operation_type = PStr ''create_log''
                         then
                           (let (success, g) = create_log_from_queue data (now w1) (mongo w1);
                                w2 = w1\<lparr>mongo := g\<rparr>
                            in if success
                               then (case py_get data ''action'' PNone of
                                       Inl x \<Rightarrow> Break w2
                                     | Inr a \<Rightarrow> Continue w2)
                               else (case requeue_with_retry queue_name m w2 of
                                       Inl x \<Rightarrow> Break w2
                                     | Inr w3 \<Rightarrow> Continue w3))
                         else Continue w1)))"

text \<open>The loops end: every pass takes one message off the queue and puts back at most
  one, whose counter is larger and at most 5.\<close>

definition retries_left :: "body \<Rightarrow> nat" where
  "retries_left b =
     (case b of
        Garbled \<Rightarrow> 0
      | NotUtf8 \<Rightarrow> 0
      | Text m \<Rightarrow>
          (case py_get m ''retry_count'' (PInt 0) of
             Inl x \<Rightarrow> 0
           | Inr c \<Rightarrow> (case py_int c of Inl x \<Rightarrow> 0 | Inr n \<Rightarrow> nat (max_retries - n))))"

definition backlog :: "string \<Rightarrow> world \<Rightarrow> nat" where
  "backlog q w = sum_list (map (\<lambda>b. Suc (retries_left b)) (queues (rabbitmq w) q))"

lemma all_bound_map_of:
  "all_bound xs = Some ys \<Longrightarrow> map_of ys k = (case map_of xs k of None \<Rightarrow> None | Some v \<Rightarrow> v)"
proof (induction xs arbitrary: ys)
  case Nil
  then show ?case by simp
next
  case (Cons x xs)
  then show ?case
    by (cases x) (auto split: option.splits)
qed

lemma dumps_dict_lookup:
  assumes "dumps (PDict kvs) = Some v"
  shows "\<exists>kvs'. v = PDict kvs' \<and>
           map_of kvs' k = (case map_of kvs k of None \<Rightarrow> None | Some x \<Rightarrow> dumps x)"
proof -
  from assms obtain kvs' where b: "all_bound (map (map_prod id dumps) kvs) = Some kvs'"
    and v: "v = PDict kvs'"
    by auto
  have "map_of (map (map_prod id dumps) kvs) k = map_option dumps (map_of kvs k)"
    by (induction kvs) auto
  with all_bound_map_of [OF b, of k] v show ?thesis
    by (auto split: option.splits)
qed

lemma ensure_connection_queues [simp]: "queues (ensure_connection r) = queues r"
  by (simp add: ensure_connection_def connect_def)

lemma declare_queue_queues [simp]: "queues (declare_queue q r) = queues r"
  by (simp add: declare_queue_def queue_declare_def Let_def split: sum.splits)

lemma receive_message_Some:
  assumes "receive_message q r = (Some m, r')"
  shows "\<exists>rest. queues r q = Text m # rest \<and> queues r' = (queues r)(q := rest)"
  using assms
  by (auto simp: receive_message_def receive_message_try_def basic_get_def Let_def
      split: if_splits sum.splits option.splits list.splits prod.splits body.splits
      elim!: loads.elims)

lemma send_message_queues:
  "queues (snd (send_message q m r)) = queues r \<or>
   (\<exists>v. dumps m = Some v \<and> queues (snd (send_message q m r)) = (queues r)(q := queues r q @ [Text v]))"
  by (auto simp: send_message_def send_message_try_def basic_publish_def Let_def
      split: if_splits sum.splits option.splits prod.splits)


lemma backlog_pg [simp]: "backlog q (w\<lparr>pg := p\<rparr>) = backlog q w"
  by (simp add: backlog_def)

lemma backlog_mongo [simp]: "backlog q (w\<lparr>mongo := g\<rparr>) = backlog q w"
  by (simp add: backlog_def)

lemma backlog_received:
  assumes "receive_message q (rabbitmq w) = (Some m, r)"
  shows "backlog q w = Suc (retries_left (Text m)) + backlog q (w\<lparr>rabbitmq := r\<rparr>)"
proof -
  from receive_message_Some [OF assms] obtain rest
    where "queues (rabbitmq w) q = Text m # rest" "queues r = (queues (rabbitmq w))(q := rest)"
    by blast
  then show ?thesis by (simp add: backlog_def)
qed

lemma backlog_sent_elsewhere:
  assumes "q' \<noteq> q"
  shows "backlog q (w\<lparr>rabbitmq := snd (send_message q' m (rabbitmq w))\<rparr>) = backlog q w"
  using send_message_queues [of q' m "rabbitmq w"] assms
  by (auto simp: backlog_def)

lemma backlog_sent:
  "backlog q (w\<lparr>rabbitmq := snd (send_message q m (rabbitmq w))\<rparr>) = backlog q w \<or>
   (\<exists>v. dumps m = Some v \<and>
        backlog q (w\<lparr>rabbitmq := snd (send_message q m (rabbitmq w))\<rparr>)
          = backlog q w + Suc (retries_left (Text v)))"
  using send_message_queues [of q m "rabbitmq w"]
  by (auto simp: backlog_def)

lemma retries_left_bumped:
  assumes "dumps (PDict (AList.update ''last_retry'' t (AList.update ''retry_count'' (PInt (n + 1)) kvs))) = Some v"
  shows "retries_left (Text v) = nat (max_retries - (n + 1))"
proof -
  from dumps_dict_lookup [OF assms, of "''retry_count''"] obtain kvs'
    where "v = PDict kvs'" "map_of kvs' ''retry_count'' = Some (PInt (n + 1))"
    by (auto simp: update_conv')
  then show ?thesis by (simp add: retries_left_def)
qed

lemma requeue_with_retry_backlog:
  assumes "requeue_with_retry q m w = Inr w'"
  shows "backlog q w' \<le> backlog q w + retries_left (Text m)"
proof -
  from assms obtain kvs c n where m: "m = PDict kvs"
    and c: "py_get m ''retry_count'' (PInt 0) = Inr c" and n: "py_int c = Inr n"
    by (cases m) (auto simp: requeue_with_retry_def split: sum.splits)
  have left: "retries_left (Text m) = nat (max_retries - n)"
    using c n by (simp add: retries_left_def)
  show ?thesis
  proof (cases "n + 1 \<le> max_retries")
    case True
    let ?m2 = "PDict (AList.update ''last_retry'' (PStr (now w)) (AList.update ''retry_count'' (PInt (n + 1)) kvs))"
    from assms m c n True
    have w': "w' = w\<lparr>rabbitmq := snd (send_message q ?m2 (rabbitmq w))\<rparr>"
      by (simp add: requeue_with_retry_def Let_def)
    from backlog_sent [where q = q and w = w and m = ?m2] show ?thesis
    proof
      assume "backlog q (w\<lparr>rabbitmq := snd (send_message q ?m2 (rabbitmq w))\<rparr>) = backlog q w"
      with w' show ?thesis by simp
    next
      assume "\<exists>v. dumps ?m2 = Some v \<and>
        backlog q (w\<lparr>rabbitmq := snd (send_message q ?m2 (rabbitmq w))\<rparr>)
          = backlog q w + Suc (retries_left (Text v))"
      then obtain v where v: "dumps ?m2 = Some v"
        and b: "backlog q w' = backlog q w + Suc (retries_left (Text v))"
        using w' by auto
      from retries_left_bumped [OF v] have "retries_left (Text v) = nat (max_retries - (n + 1))" .
      with b left True show ?thesis by simp
    qed
  next
    case False
    from assms m c n False
    have "w' = w\<lparr>rabbitmq := snd (send_message (q @ ''_dead_letter'') m (rabbitmq w))\<rparr>"
      by (simp add: requeue_with_retry_def Let_def)
    with backlog_sent_elsewhere [where q' = "q @ ''_dead_letter''" and q = q and w = w and m = m] show ?thesis
      by simp
  qed
qed

lemma users_queue_step_backlog:
  assumes "users_queue_step q w = Continue w'"
  shows "backlog q w' < backlog q w"
proof -
  obtain message r where rc: "receive_message q (rabbitmq w) = (message, r)"
    by (cases "receive_message q (rabbitmq w)")
  with assms obtain m where m: "message = Some m"
    by (cases message) (auto simp: users_queue_step_def)
  note got = backlog_received [OF rc [unfolded m]]
  from assms rc m show ?thesis
    using got
    by (auto simp: users_queue_step_def Let_def
        split: if_splits sum.splits prod.splits
        dest!: requeue_with_retry_backlog)
qed

lemma logs_queue_step_backlog:
  assumes "logs_queue_step q w = Continue w'"
  shows "backlog q w' < backlog q w"
proof -
  obtain message r where rc: "receive_message q (rabbitmq w) = (message, r)"
    by (cases "receive_message q (rabbitmq w)")
  with assms obtain m where m: "message = Some m"
    by (cases message) (auto simp: logs_queue_step_def)
  note got = backlog_received [OF rc [unfolded m]]
  from assms rc m show ?thesis
    using got
    by (auto simp: logs_queue_step_def Let_def
        split: if_splits sum.splits prod.splits
        dest!: requeue_with_retry_backlog)
qed

function users_queue_loop :: "string \<Rightarrow> world \<Rightarrow> world" where
  "users_queue_loop queue_name w =
     (case users_queue_step queue_name w of
        Break w' \<Rightarrow> w'
      | Continue w' \<Rightarrow> users_queue_loop queue_name w')"
  by pat_completeness auto
termination
  by (relation "measure (\<lambda>(q, w). backlog q w)") (auto dest: users_queue_step_backlog)

function logs_queue_loop :: "string \<Rightarrow> world \<Rightarrow> world" where
  "logs_queue_loop queue_name w =
     (case logs_queue_step queue_name w of
        Break w' \<Rightarrow> w'
      | Continue w' \<Rightarrow> logs_queue_loop queue_name w')"
  by pat_completeness auto
termination
  by (relation "measure (\<lambda>(q, w). backlog q w)") (auto dest: logs_queue_step_backlog)

text \<open>\<^verbatim>\<open>_process_users_queue\<close> and \<^verbatim>\<open>_process_logs_queue\<close>: the health gate, then the
  loop. The lookup in \<open>FALLBACK_QUEUES\<close> is outside every handler.\<close>

definition process_users_queue :: "world \<Rightarrow> exn + world" where
  "process_users_queue w =
     (case fallback_queue ''users'' of
        Inl x \<Rightarrow> Inl x
      | Inr queue_name \<Rightarrow>
          if \<not> check_database_health (pg w) then Inr w
          else Inr (users_queue_loop queue_name w))"

definition process_logs_queue :: "world \<Rightarrow> exn + world" where
  "process_logs_queue w =
     (case fallback_queue ''logs'' of
        Inl x \<Rightarrow> Inl x
      | Inr queue_name \<Rightarrow>
          (case ping (mongo w) of
             Inl x \<Rightarrow> Inr w
           | Inr u \<Rightarrow> Inr (logs_queue_loop queue_name w)))"

text \<open>One pass of \<^verbatim>\<open>_worker_loop\<close>: both queues, then the number of seconds slept.\<close>

definition worker_loop_pass :: "world \<Rightarrow> nat \<times> world" where
  "worker_loop_pass w =
     (case process_users_queue w of
        Inl x \<Rightarrow> (60, w)
      | Inr w1 \<Rightarrow>
          (case process_logs_queue w1 of
             Inl x \<Rightarrow> (60, w1)
           | Inr w2 \<Rightarrow> (30, w2)))"

text \<open>
  The worker object and the threads of the process that run \<^verbatim>\<open>_worker_loop\<close>. A thread
  is named by its number; \<open>spawned\<close> counts the threads created so far. Each call runs
  to its end before the next one starts. \<^verbatim>\<open>join\<close> returns when the joined thread has
  left its loop, which it does once it reads \<^verbatim>\<open>running\<close> as false.
\<close>

record fallback_worker =
  running :: bool
  worker_thread :: "nat option"
  alive :: "nat list"
  spawned :: nat

definition init_worker :: fallback_worker where
  "init_worker = \<lparr>running = False, worker_thread = None, alive = [], spawned = 0\<rparr>"

definition start :: "fallback_worker \<Rightarrow> fallback_worker" where
  "start s =
     (if \<not> running s
      then s\<lparr>running := True, worker_thread := Some (spawned s),
             alive := spawned s # alive s, spawned := Suc (spawned s)\<rparr>
      else s)"

definition stop :: "fallback_worker \<Rightarrow> fallback_worker" where
  "stop s =
     (let s1 = s\<lparr>running := False\<rparr>
      in case worker_thread s1 of
           None \<Rightarrow> s1
         | Some t \<Rightarrow> s1\<lparr>alive := removeAll t (alive s1)\<rparr>)"

definition start_fallback_worker :: "fallback_worker \<Rightarrow> string \<times> fallback_worker" where
  "start_fallback_worker s = (''running'', start s)"

definition stop_fallback_worker :: "fallback_worker \<Rightarrow> string \<times> fallback_worker" where
  "stop_fallback_worker s = (''stopped'', stop s)"

datatype admin_call = StartWorker | StopWorker

fun admin :: "admin_call \<Rightarrow> fallback_worker \<Rightarrow> fallback_worker" where
  "admin StartWorker s = snd (start_fallback_worker s)"
| "admin StopWorker s = snd (stop_fallback_worker s)"

section \<open>consumers/sql\_consumer.py and consumers/nosql\_consumer.py\<close>

definition sql_queue_name :: string where
  "sql_queue_name = ''sql_fallback''"

definition nosql_queue_name :: string where
  "nosql_queue_name = ''nosql_fallback''"

text \<open>A delivery is the message body with \<^verbatim>\<open>properties.headers\<close>; the callback answers a
  delivery with \<^verbatim>\<open>basic_ack\<close> or with \<^verbatim>\<open>basic_nack\<close> and its \<^verbatim>\<open>requeue\<close> flag.\<close>

record delivery =
  headers :: "(string \<times> pyval) list option"
  body :: body

datatype verdict = Ack | Nack bool

text \<open>The retry decision that both callbacks make in their handler: the counter is read
  from the headers, 0 when there are none, and compared with 3. The comparison raises
  when the header is not a number.\<close>

definition retry_verdict :: "(string \<times> pyval) list option \<Rightarrow> exn + verdict" where
  "retry_verdict hs =
     (let retry_count =
            (case hs of
               None \<Rightarrow> PInt 0
             | Some kvs \<Rightarrow>
                 if kvs = [] then PInt 0
                 else (case map_of kvs ''retry_count'' of None \<Rightarrow> PInt 0 | Some v \<Rightarrow> v))
      in case py_int retry_count of
           Inl x \<Rightarrow> Inl x
         | Inr n \<Rightarrow> Inr (if n < 3 then Nack True else Nack False))"

text \<open>\<^verbatim>\<open>SQLConsumer.process_message\<close>. \<open>sql_replay\<close> is the inner \<^verbatim>\<open>try\<close> block; its
  handler rolls back and decides on the retry. Of what else raises, a
  \<^verbatim>\<open>JSONDecodeError\<close> is refused without requeue and everything else reaches the last
  handler, which requeues.\<close>

definition sql_replay :: "session option \<Rightarrow> pyval \<Rightarrow> pg_store \<Rightarrow> exn + pg_store" where
  "sql_replay db data p =
     (case py_item data ''email'' of
        Inl x \<Rightarrow> Inl x
      | Inr e \<Rightarrow>
          (case query_first db p e of
             Inl x \<Rightarrow> Inl x
           | Inr (Some existing_user) \<Rightarrow> Inr p
           | Inr None \<Rightarrow>
               (case py_item data ''name'' of
                  Inl x \<Rightarrow> Inl x
                | Inr n \<Rightarrow> add_commit db p n e)))"

definition sql_process_message :: "delivery \<Rightarrow> pg_store \<Rightarrow> verdict \<times> pg_store" where
  "sql_process_message d p =
     (case loads (body d) of
        Inl x \<Rightarrow> (if x = JSONDecodeError then (Nack False, p) else (Nack True, p))
      | Inr data \<Rightarrow>
          (case py_in ''name'' data of
             Inl x \<Rightarrow> (Nack True, p)
           | Inr has_name \<Rightarrow>
               if \<not> has_name then (Nack False, p)
               else
                 (case py_in ''email'' data of
                    Inl x \<Rightarrow> (Nack True, p)
                  | Inr has_email \<Rightarrow>
                      if \<not> has_email then (Nack False, p)
                      else
                        (case get_session_with_retry 3 p of
                           Inl x \<Rightarrow> (Nack True, p)
                         | Inr db \<Rightarrow>
                             (case sql_replay db data p of
                                Inr p' \<Rightarrow> (Ack, p')
                              | Inl x \<Rightarrow>
                                  (case db of
                                     None \<Rightarrow> (Nack True, p)
                                   | Some s \<Rightarrow>
                                       (case retry_verdict (headers d) of
                                          Inl y \<Rightarrow> (Nack True, p)
                                        | Inr v \<Rightarrow> (v, p))))))))"



text \<open>
  The broker's side of the answer, for a queue declared without a dead-letter exchange
  (the consumers declare theirs with \<^verbatim>\<open>x-message-ttl\<close> only): an acknowledged delivery
  and one refused without requeue are gone; one refused with requeue goes back to the
  queue as it was delivered, headers and body untouched.
\<close>

fun settle :: "verdict \<Rightarrow> delivery \<Rightarrow> delivery list \<Rightarrow> delivery list" where
  "settle Ack d rest = rest"
| "settle (Nack requeue) d rest = (if requeue then d # rest else rest)"

definition sql_consume :: "delivery list \<times> pg_store \<Rightarrow> delivery list \<times> pg_store" where
  "sql_consume s =
     (case fst s of
        [] \<Rightarrow> s
      | d # rest \<Rightarrow>
          (let (v, p) = sql_process_message d (snd s) in (settle v d rest, p)))"



definition mongo_probe :: "mongo_store \<Rightarrow> bool" where
  "mongo_probe m = (case ping m of Inl x \<Rightarrow> False | Inr u \<Rightarrow> True)"









section \<open>States used as examples\<close>

text \<open>A client that has not connected yet to a broker that works, with nothing queued;
  both stores down, and both stores up and empty.\<close>

definition idle_broker :: rabbit where
  "idle_broker =
     \<lparr>connection_open = False, channel_set = False, channel_open = False, link_up = True,
      declare_ok = True, publish_ok = True, get_ok = True, queues = (\<lambda>q. []), ops = []\<rparr>"

definition outage :: world where
  "outage =
     \<lparr>pg = \<lparr>reachable = False, statements_ok = False, users = []\<rparr>,
      mongo = \<lparr>ping_ok = False, insert_ok = False, logs = []\<rparr>,
      rabbitmq = idle_broker, now = ''2024-05-01T10:00:00''\<rparr>"

definition healthy :: world where
  "healthy =
     \<lparr>pg = \<lparr>reachable = True, statements_ok = True, users = []\<rparr>,
      mongo = \<lparr>ping_ok = True, insert_ok = True, logs = []\<rparr>,
      rabbitmq = idle_broker, now = ''2024-05-01T10:00:00''\<rparr>"

definition ana :: pyval where
  "ana = PDict [(''name'', PStr ''Ana''), (''email'', PStr ''a@x.com'')]"

text \<open>The envelope that \<^verbatim>\<open>send_to_fallback_queue\<close> builds, with a given counter.\<close>

definition envelope :: "string \<Rightarrow> pyval \<Rightarrow> int \<Rightarrow> pyval" where
  "envelope operation_type data n =
     PDict [(''operation_type'', PStr operation_type),
            (''timestamp'', PStr ''2024-05-01T09:00:00''),
            (''data'', data),
            (''retry_count'', PInt n)]"

definition queued :: "string \<Rightarrow> pyval \<Rightarrow> world \<Rightarrow> world" where
  "queued q m w = w\<lparr>rabbitmq := (rabbitmq w)\<lparr>queues := (queues (rabbitmq w))(q := queues (rabbitmq w) q @ [Text m])\<rparr>\<rparr>"

definition log_payload :: pyval where
  "log_payload = PDict [(''action'', PStr ''login''), (''details'', PDict [])]"

definition mongo_rejects :: world where
  "mongo_rejects =
     queued ''logs_fallback_queue'' (envelope ''create_log'' log_payload 5)
       (healthy\<lparr>mongo := \<lparr>ping_ok = True, insert_ok = False, logs = []\<rparr>,
                rabbitmq := idle_broker\<rparr>)"

definition store_rejects :: pg_store where
  "store_rejects = \<lparr>reachable = True, statements_ok = False, users = []\<rparr>"

definition first_delivery :: delivery where
  "first_delivery = \<lparr>headers = Some [(''retry_count'', PInt 0)], body = Text ana\<rparr>"

definition stray :: world where
  "stray = queued ''users_fallback_queue'' (envelope ''create_log'' log_payload 0) healthy"


definition pending_user :: world where
  "pending_user = queued ''users_fallback_queue'' (envelope ''create_user'' ana 0) healthy"

section \<open>The producer never raises\<close>

lemma send_message_result:
  "fst (send_message q m r) =
     ((if connection_open r then channel_set r \<and> channel_open r else link_up r)
      \<and> declare_ok r \<and> dumps m \<noteq> None \<and> publish_ok r)"
  by (auto simp: send_message_def send_message_try_def declare_queue_def queue_declare_def
      ensure_connection_def connect_def basic_publish_def Let_def
      split: option.splits sum.splits)

lemma dumps_envelope:
  "dumps (PDict [(''operation_type'', PStr op), (''timestamp'', PStr t), (''data'', data),
                 (''retry_count'', PInt 0)]) = None \<longleftrightarrow> dumps data = None"
  by (auto split: option.splits)

text \<open>
  Claim C6. For every queue name and every payload, \<^verbatim>\<open>send_message\<close> returns a boolean
  and raises nothing: its result is \<open>True\<close> exactly when a channel is there (the held
  one, or one from a fresh connection), the queue declaration, the encoding of the
  payload and the publish all go through; whenever the body of its \<^verbatim>\<open>try\<close> block raises,
  the result is \<open>False\<close>. The same holds of \<^verbatim>\<open>send_to_fallback_queue\<close>, which wraps the
  payload first.
\<close>

theorem producer_reports_every_fault:
  "fst (send_message q m r) =
     ((if connection_open r then channel_set r \<and> channel_open r else link_up r)
      \<and> declare_ok r \<and> dumps m \<noteq> None \<and> publish_ok r)
   \<and> (case send_message_try q m r of
         (Inl e, r') \<Rightarrow> send_message q m r = (False, r')
       | (Inr b, r') \<Rightarrow> send_message q m r = (b, r'))
   \<and> fst (send_to_fallback_queue q data op w) =
     ((if connection_open (rabbitmq w) then channel_set (rabbitmq w) \<and> channel_open (rabbitmq w)
       else link_up (rabbitmq w))
      \<and> declare_ok (rabbitmq w) \<and> dumps data \<noteq> None \<and> publish_ok (rabbitmq w))"
proof -
  have "fst (send_to_fallback_queue q data op w) =
     fst (send_message q (PDict [(''operation_type'', PStr op), (''timestamp'', PStr (now w)),
        (''data'', data), (''retry_count'', PInt 0)]) (rabbitmq w))"
    by (simp add: send_to_fallback_queue_def Let_def split: prod.splits)
  moreover have "(case send_message_try q m r of
         (Inl e, r') \<Rightarrow> send_message q m r = (False, r')
       | (Inr b, r') \<Rightarrow> send_message q m r = (b, r'))"
    by (simp add: send_message_def split: prod.splits sum.splits)
  ultimately show ?thesis
    by (simp only: send_message_result dumps_envelope)
qed

section \<open>The health gate of the polling worker\<close>

text \<open>
  Claim C9. In a cycle of the polling worker, a domain whose store fails its health probe
  is skipped: the function returns at once, the state is the one it was called in, so
  no message has been pulled from the queue (no \<^verbatim>\<open>basic_get\<close> was issued and the queue
  holds what it held). With both stores down the whole pass changes nothing and sleeps
  30 seconds.
\<close>

theorem unhealthy_store_skips_queue:
  "(\<not> check_database_health (pg w) \<longrightarrow> process_users_queue w = Inr w)
   \<and> (\<not> mongo_probe (mongo w) \<longrightarrow> process_logs_queue w = Inr w)
   \<and> (\<not> check_database_health (pg w) \<and> \<not> mongo_probe (mongo w) \<longrightarrow> worker_loop_pass w = (30, w))"
  by (auto simp: process_users_queue_def process_logs_queue_def worker_loop_pass_def
      fallback_queue_def FALLBACK_QUEUES_def mongo_probe_def split: sum.splits)

theorem unhealthy_store_skips_queue_witness:
  "\<not> check_database_health (pg (queued ''users_fallback_queue'' (envelope ''create_user'' ana 0) outage))
   \<and> \<not> mongo_probe (mongo (queued ''users_fallback_queue'' (envelope ''create_user'' ana 0) outage))
   \<and> process_users_queue (queued ''users_fallback_queue'' (envelope ''create_user'' ana 0) outage)
       = Inr (queued ''users_fallback_queue'' (envelope ''create_user'' ana 0) outage)
   \<and> process_logs_queue (queued ''users_fallback_queue'' (envelope ''create_user'' ana 0) outage)
       = Inr (queued ''users_fallback_queue'' (envelope ''create_user'' ana 0) outage)
   \<and> worker_loop_pass (queued ''users_fallback_queue'' (envelope ''create_user'' ana 0) outage)
       = (30, queued ''users_fallback_queue'' (envelope ''create_user'' ana 0) outage)"
  using unhealthy_store_skips_queue
    [of "queued ''users_fallback_queue'' (envelope ''create_user'' ana 0) outage"]
  by (simp add: queued_def outage_def check_database_health_def mongo_probe_def ping_def)

section \<open>Starting the worker\<close>

lemma alive_shape:
  "alive (foldl (\<lambda>s c. admin c s) init_worker cs) =
     (let s = foldl (\<lambda>s c. admin c s) init_worker cs
      in case worker_thread s of None \<Rightarrow> [] | Some t \<Rightarrow> if running s then [t] else [])
   \<and> (case worker_thread (foldl (\<lambda>s c. admin c s) init_worker cs) of
        None \<Rightarrow> \<not> running (foldl (\<lambda>s c. admin c s) init_worker cs)
      | Some t \<Rightarrow> True)"
proof (induction cs rule: rev_induct)
  case Nil
  then show ?case by (simp add: init_worker_def)
next
  case (snoc c cs)
  then show ?case
    by (cases c)
       (auto simp: start_fallback_worker_def stop_fallback_worker_def start_def stop_def Let_def
        split: option.splits if_splits)
qed

text \<open>
  Claim C10. \<^verbatim>\<open>FallbackWorker.start()\<close> is idempotent: on a worker that is running it
  changes nothing (no thread is created), and a second call right after a first one
  changes nothing either. Whatever sequence of calls of the start and stop endpoints
  has been made on the worker of the process, at most one thread runs the worker
  loop.
\<close>

theorem start_is_idempotent:
  "(running s \<longrightarrow> start s = s)
   \<and> start (start s) = start s
   \<and> length (alive (foldl (\<lambda>s c. admin c s) init_worker cs)) \<le> 1"
proof -
  have "length (alive (foldl (\<lambda>s c. admin c s) init_worker cs)) \<le> 1"
    using alive_shape [of cs] by (auto simp: Let_def split: option.splits)
  then show ?thesis by (simp add: start_def)
qed

theorem start_is_idempotent_witness:
  "running (start init_worker)
   \<and> start (start init_worker) = start init_worker
   \<and> spawned (start (start init_worker)) = 1
   \<and> length (alive (foldl (\<lambda>s c. admin c s) init_worker [StartWorker, StartWorker, StartWorker])) \<le> 1"
  using start_is_idempotent [of "start init_worker" "[StartWorker, StartWorker, StartWorker]"]
  by (simp add: start_def init_worker_def)

section \<open>Retry and dead-lettering in the polling worker\<close>

definition ready :: "rabbit \<Rightarrow> bool" where
  "ready r =
     ((if connection_open r then channel_set r \<and> channel_open r else link_up r)
      \<and> declare_ok r \<and> publish_ok r \<and> get_ok r)"

lemma send_message_ready:
  assumes "ready r" and "dumps m = Some v"
  shows "fst (send_message q m r)"
    and "queues (snd (send_message q m r)) = (queues r)(q := queues r q @ [Text v])"
    and "ops (snd (send_message q m r)) = ops r @ [Publish q (Text v)]"
    and "ready (snd (send_message q m r))"
  using assms
  by (auto simp: ready_def send_message_def send_message_try_def declare_queue_def
      queue_declare_def ensure_connection_def connect_def basic_publish_def Let_def
      split: if_splits)

lemma receive_message_ready:
  assumes "ready r" and "queues r q = Text m # rest"
  shows "fst (receive_message q r) = Some m"
    and "queues (snd (receive_message q r)) = (queues r)(q := rest)"
    and "ops (snd (receive_message q r)) = ops r @ [Get q]"
    and "ready (snd (receive_message q r))"
  using assms
  by (auto simp: ready_def receive_message_def receive_message_try_def declare_queue_def
      queue_declare_def ensure_connection_def connect_def basic_get_def Let_def
      split: if_splits)

lemma all_bound_update:
  assumes "all_bound (map (map_prod id f) kvs) = Some kvs'" and "f v = Some v'"
  shows "all_bound (map (map_prod id f) (AList.update k v kvs)) = Some (AList.update k v' kvs')"
  using assms
proof (induction kvs arbitrary: kvs')
  case Nil
  then show ?case by simp
next
  case (Cons x kvs)
  then show ?case
    by (cases x) (auto split: option.splits)
qed

lemma dumps_update:
  assumes "dumps (PDict kvs) = Some (PDict kvs')" and "dumps v = Some v'"
  shows "dumps (PDict (AList.update k v kvs)) = Some (PDict (AList.update k v' kvs'))"
proof -
  from assms(1) have "all_bound (map (map_prod id dumps) kvs) = Some kvs'"
    by auto
  from all_bound_update [OF this assms(2)] show ?thesis by simp
qed

definition bumped :: "(string \<times> pyval) list \<Rightarrow> int \<Rightarrow> string \<Rightarrow> pyval" where
  "bumped kvs n t =
     PDict (AList.update ''last_retry'' (PStr t) (AList.update ''retry_count'' (PInt (n + 1)) kvs))"

lemma requeue_with_retry_ready:
  assumes c: "py_get (PDict kvs) ''retry_count'' (PInt 0) = Inr c" and n: "py_int c = Inr n"
    and j: "dumps (PDict kvs) = Some (PDict kvs)" and r: "ready (rabbitmq w)"
  shows "case requeue_with_retry q (PDict kvs) w of
           Inl x \<Rightarrow> False
         | Inr w' \<Rightarrow>
             pg w' = pg w \<and> mongo w' = mongo w \<and> now w' = now w \<and> ready (rabbitmq w') \<and>
             (if n + 1 \<le> 5
              then queues (rabbitmq w') =
                     (queues (rabbitmq w))(q := queues (rabbitmq w) q @ [Text (bumped kvs n (now w))])
                 \<and> ops (rabbitmq w') = ops (rabbitmq w) @ [Publish q (Text (bumped kvs n (now w)))]
              else queues (rabbitmq w') =
                     (queues (rabbitmq w))(q @ ''_dead_letter'' :=
                        queues (rabbitmq w) (q @ ''_dead_letter'') @ [Text (PDict kvs)])
                 \<and> ops (rabbitmq w') =
                     ops (rabbitmq w) @ [Publish (q @ ''_dead_letter'') (Text (PDict kvs))])"
proof (cases "n + 1 \<le> 5")
  case True
  have d: "dumps (bumped kvs n (now w)) = Some (bumped kvs n (now w))"
    unfolding bumped_def
    by (intro dumps_update j) simp_all
  from True c n show ?thesis
    using send_message_ready [OF r d, of q]
    by (simp add: requeue_with_retry_def max_retries_def Let_def bumped_def)
next
  case False
  from False c n show ?thesis
    using send_message_ready [OF r j, of "q @ ''_dead_letter''"]
    by (simp add: requeue_with_retry_def max_retries_def Let_def)
qed


lemma create_user_from_queue_failed:
  "\<not> fst (create_user_from_queue data p) \<Longrightarrow> create_user_from_queue data p = (False, p)"
  by (auto simp: create_user_from_queue_def create_user_from_queue_try_def
      split: sum.splits option.splits)

lemma create_log_from_queue_failed:
  "\<not> fst (create_log_from_queue data t m) \<Longrightarrow> create_log_from_queue data t m = (False, m)"
  by (auto simp: create_log_from_queue_def create_log_from_queue_try_def
      split: sum.splits option.splits)

lemma users_queue_step_failed_replay:
  assumes head: "queues (rabbitmq w) q = Text (PDict kvs) # rest"
    and r: "ready (rabbitmq w)"
    and data: "py_get (PDict kvs) ''data'' (PDict []) = Inr data"
    and op: "map_of kvs ''operation_type'' = Some (PStr ''create_user'')"
    and failed: "\<not> fst (create_user_from_queue data (pg w))"
  shows "users_queue_step q w =
           (case requeue_with_retry q (PDict kvs) (w\<lparr>rabbitmq := snd (receive_message q (rabbitmq w))\<rparr>) of
              Inl x \<Rightarrow> Break (w\<lparr>rabbitmq := snd (receive_message q (rabbitmq w))\<rparr>)
            | Inr w3 \<Rightarrow> Continue w3)"
proof -
  obtain r1 where rc: "receive_message q (rabbitmq w) = (Some (PDict kvs), r1)"
    using receive_message_ready(1) [OF r head] by (cases "receive_message q (rabbitmq w)") auto
  from op have ne: "kvs \<noteq> []" by auto
  from create_user_from_queue_failed [OF failed]
  have f: "create_user_from_queue data (pg w) = (False, pg w)" .
  have same: "w\<lparr>rabbitmq := r1, pg := pg w\<rparr> = w\<lparr>rabbitmq := r1\<rparr>" by simp
  from rc ne data op f show ?thesis
    by (simp add: users_queue_step_def Let_def same split: sum.splits)
qed

lemma logs_queue_step_failed_replay:
  assumes head: "queues (rabbitmq w) q = Text (PDict kvs) # rest"
    and r: "ready (rabbitmq w)"
    and data: "py_get (PDict kvs) ''data'' (PDict []) = Inr data"
    and op: "map_of kvs ''operation_type'' = Some (PStr ''create_log'')"
    and failed: "\<not> fst (create_log_from_queue data (now w) (mongo w))"
  shows "logs_queue_step q w =
           (case requeue_with_retry q (PDict kvs) (w\<lparr>rabbitmq := snd (receive_message q (rabbitmq w))\<rparr>) of
              Inl x \<Rightarrow> Break (w\<lparr>rabbitmq := snd (receive_message q (rabbitmq w))\<rparr>)
            | Inr w3 \<Rightarrow> Continue w3)"
proof -
  obtain r1 where rc: "receive_message q (rabbitmq w) = (Some (PDict kvs), r1)"
    using receive_message_ready(1) [OF r head] by (cases "receive_message q (rabbitmq w)") auto
  from op have ne: "kvs \<noteq> []" by auto
  from create_log_from_queue_failed [OF failed]
  have f: "create_log_from_queue data (now w) (mongo w) = (False, mongo w)" .
  have same: "w\<lparr>rabbitmq := r1, mongo := mongo w\<rparr> = w\<lparr>rabbitmq := r1\<rparr>" by simp
  from rc ne data op f show ?thesis
    by (simp add: logs_queue_step_def Let_def same split: sum.splits)
qed

lemma requeue_after_receive:
  assumes head: "queues (rabbitmq w) q = Text (PDict kvs) # rest"
    and r: "ready (rabbitmq w)"
    and j: "dumps (PDict kvs) = Some (PDict kvs)"
    and c: "py_get (PDict kvs) ''retry_count'' (PInt 0) = Inr c" and n: "py_int c = Inr n"
  shows "case requeue_with_retry q (PDict kvs) (w\<lparr>rabbitmq := snd (receive_message q (rabbitmq w))\<rparr>) of
           Inl x \<Rightarrow> False
         | Inr w' \<Rightarrow>
             pg w' = pg w \<and> mongo w' = mongo w \<and>
             (if n + 1 \<le> 5
              then queues (rabbitmq w') =
                     (queues (rabbitmq w))(q := rest @ [Text (bumped kvs n (now w))])
                 \<and> ops (rabbitmq w') =
                     ops (rabbitmq w) @ [Get q, Publish q (Text (bumped kvs n (now w)))]
              else queues (rabbitmq w') =
                     (queues (rabbitmq w))(q := rest, q @ ''_dead_letter'' :=
                        queues (rabbitmq w) (q @ ''_dead_letter'') @ [Text (PDict kvs)])
                 \<and> ops (rabbitmq w') =
                     ops (rabbitmq w) @ [Get q, Publish (q @ ''_dead_letter'') (Text (PDict kvs))])"
proof -
  let ?w1 = "w\<lparr>rabbitmq := snd (receive_message q (rabbitmq w))\<rparr>"
  note rcv = receive_message_ready [OF r head]
  have r1: "ready (rabbitmq ?w1)" using rcv(4) by simp
  from requeue_with_retry_ready [OF c n j r1, of q] rcv(2,3)
  show ?thesis
    by (auto split: sum.splits if_splits)
qed

lemma bumped_fields:
  "py_get (bumped kvs n t) ''retry_count'' d = Inr (PInt (n + 1))"
  "py_get (bumped kvs n t) ''last_retry'' d = Inr (PStr t)"
  by (simp_all add: bumped_def update_conv')

text \<open>
  Claim C5. In the polling worker, an envelope whose replay fails (users or logs) has its
  \<^verbatim>\<open>retry_count\<close> incremented by one. If the new value is at most 5, the envelope goes
  back to the end of the same queue with the new \<^verbatim>\<open>retry_count\<close> and \<^verbatim>\<open>last_retry\<close> set to
  the current time; if it exceeds 5, the envelope is published once to the queue
  \<^verbatim>\<open><queue>_dead_letter\<close> and the active queue keeps only the messages that were behind
  it. Stated for one pass of the loop on a broker that works, with the envelope at the
  head of the queue, a counter that is absent or a number, and either domain's replay
  failing; \<open>ops\<close> shows the single publish.
\<close>

theorem failed_replay_requeued_or_dead_lettered:
  assumes head: "queues (rabbitmq w) q = Text (PDict kvs) # rest"
    and r: "ready (rabbitmq w)"
    and j: "dumps (PDict kvs) = Some (PDict kvs)"
    and c: "py_get (PDict kvs) ''retry_count'' (PInt 0) = Inr c" and n: "py_int c = Inr n"
    and data: "py_get (PDict kvs) ''data'' (PDict []) = Inr data"
    and failed:
      "map_of kvs ''operation_type'' = Some (PStr ''create_user'')
         \<and> \<not> fst (create_user_from_queue data (pg w)) \<and> step = users_queue_step
       \<or> map_of kvs ''operation_type'' = Some (PStr ''create_log'')
         \<and> \<not> fst (create_log_from_queue data (now w) (mongo w)) \<and> step = logs_queue_step"
  shows "(case step q w of
           Break w' \<Rightarrow> False
         | Continue w' \<Rightarrow>
             pg w' = pg w \<and> mongo w' = mongo w \<and>
             (if n + 1 \<le> 5
              then queues (rabbitmq w') =
                     (queues (rabbitmq w))(q := rest @ [Text (bumped kvs n (now w))])
                 \<and> ops (rabbitmq w') =
                     ops (rabbitmq w) @ [Get q, Publish q (Text (bumped kvs n (now w)))]
              else queues (rabbitmq w') =
                     (queues (rabbitmq w))(q := rest, q @ ''_dead_letter'' :=
                        queues (rabbitmq w) (q @ ''_dead_letter'') @ [Text (PDict kvs)])
                 \<and> ops (rabbitmq w') =
                     ops (rabbitmq w) @ [Get q, Publish (q @ ''_dead_letter'') (Text (PDict kvs))]))
       \<and> py_get (bumped kvs n (now w)) ''retry_count'' (PInt 0) = Inr (PInt (n + 1))
       \<and> py_get (bumped kvs n (now w)) ''last_retry'' PNone = Inr (PStr (now w))"
proof -
  let ?w1 = "w\<lparr>rabbitmq := snd (receive_message q (rabbitmq w))\<rparr>"
  have "step q w =
           (case requeue_with_retry q (PDict kvs) ?w1 of
              Inl x \<Rightarrow> Break ?w1
            | Inr w3 \<Rightarrow> Continue w3)"
    using failed users_queue_step_failed_replay [OF head r data]
      logs_queue_step_failed_replay [OF head r data]
    by auto
  with requeue_after_receive [OF head r j c n] show ?thesis
    by (simp add: bumped_fields split: sum.splits)
qed

theorem failed_replay_requeued_or_dead_lettered_witness:
  "queues (rabbitmq mongo_rejects) ''logs_fallback_queue''
     = [Text (envelope ''create_log'' log_payload 5)]
   \<and> ready (rabbitmq mongo_rejects)
   \<and> \<not> fst (create_log_from_queue log_payload (now mongo_rejects) (mongo mongo_rejects))
   \<and> (case logs_queue_step ''logs_fallback_queue'' mongo_rejects of
         Break w' \<Rightarrow> False
       | Continue w' \<Rightarrow>
           queues (rabbitmq w') ''logs_fallback_queue'' = []
           \<and> queues (rabbitmq w') ''logs_fallback_queue_dead_letter''
               = [Text (envelope ''create_log'' log_payload 5)]
           \<and> ops (rabbitmq w') =
               [Get ''logs_fallback_queue'',
                Publish ''logs_fallback_queue_dead_letter''
                  (Text (envelope ''create_log'' log_payload 5))])"
proof -
  let ?kvs = "[(''operation_type'', PStr ''create_log''),
               (''timestamp'', PStr ''2024-05-01T09:00:00''),
               (''data'', log_payload), (''retry_count'', PInt 5)]"
  have head: "queues (rabbitmq mongo_rejects) ''logs_fallback_queue'' = Text (PDict ?kvs) # []"
    by (simp add: mongo_rejects_def queued_def healthy_def idle_broker_def envelope_def)
  have r: "ready (rabbitmq mongo_rejects)"
    by (simp add: mongo_rejects_def queued_def healthy_def idle_broker_def ready_def)
  have j: "dumps (PDict ?kvs) = Some (PDict ?kvs)"
    by (simp add: log_payload_def)
  have c: "py_get (PDict ?kvs) ''retry_count'' (PInt 0) = Inr (PInt 5)" by simp
  have n: "py_int (PInt 5) = Inr 5" by simp
  have data: "py_get (PDict ?kvs) ''data'' (PDict []) = Inr log_payload" by simp
  have f: "\<not> fst (create_log_from_queue log_payload (now mongo_rejects) (mongo mongo_rejects))"
    by (simp add: create_log_from_queue_def create_log_from_queue_try_def log_payload_def
        insert_one_def mongo_rejects_def queued_def healthy_def)
  have failed: "map_of ?kvs ''operation_type'' = Some (PStr ''create_user'')
         \<and> \<not> fst (create_user_from_queue log_payload (pg mongo_rejects)) \<and> logs_queue_step = users_queue_step
       \<or> map_of ?kvs ''operation_type'' = Some (PStr ''create_log'')
         \<and> \<not> fst (create_log_from_queue log_payload (now mongo_rejects) (mongo mongo_rejects))
         \<and> logs_queue_step = logs_queue_step"
    using f by simp
  have empty: "queues (rabbitmq mongo_rejects) ''logs_fallback_queue_dead_letter'' = []"
    "ops (rabbitmq mongo_rejects) = []"
    by (simp_all add: mongo_rejects_def queued_def healthy_def idle_broker_def)
  from failed_replay_requeued_or_dead_lettered [OF head r j c n data failed]
  show ?thesis
    using head r f empty
    by (auto simp: envelope_def split: loop.splits)
qed

section \<open>Replaying a user twice\<close>

lemma find_by_email:
  "List.find (\<lambda>u. PStr (email u) = PStr e) us = None \<longleftrightarrow> e \<notin> set (map email us)"
  by (induction us) auto

lemma one_row_per_email:
  "distinct (map email us) \<Longrightarrow> e \<in> set (map email us) \<Longrightarrow>
     length (filter (\<lambda>u. email u = e) us) = 1"
proof (induction us)
  case Nil
  then show ?case by simp
next
  case (Cons u us)
  show ?case
  proof (cases "email u = e")
    case True
    with Cons.prems have "e \<notin> set (map email us)" by auto
    then have "filter (\<lambda>u. email u = e) us = []"
      by (auto simp: filter_empty_conv)
    with True show ?thesis by simp
  next
    case False
    with Cons show ?thesis by auto
  qed
qed

lemma get_session_reachable:
  "reachable p \<Longrightarrow> 0 < k \<Longrightarrow> get_session_with_retry k p = Inr (Some Session)"
  by (cases k) (simp_all add: get_session_with_retry_def test_connection_def)

text \<open>What one replay of a well-formed payload does to a store that answers.\<close>

definition stored :: "string \<Rightarrow> string \<Rightarrow> pg_store \<Rightarrow> pg_store" where
  "stored n e p =
     (if e \<in> set (map email (users p)) then p
      else p\<lparr>users := users p @ [\<lparr>name = n, email = e\<rparr>]\<rparr>)"

lemma stored_once:
  assumes "distinct (map email (users p))"
  shows "distinct (map email (users (stored n e p)))"
    and "length (filter (\<lambda>u. email u = e) (users (stored n e p))) = 1"
    and "stored n e (stored n e p) = stored n e p"
    and "reachable (stored n e p) = reachable p"
    and "statements_ok (stored n e p) = statements_ok p"
  using assms by (auto simp: stored_def one_row_per_email filter_empty_conv)

lemma sql_replay_ok:
  assumes "statements_ok p"
    and "map_of kvs ''name'' = Some (PStr n)" and "map_of kvs ''email'' = Some (PStr e)"
  shows "sql_replay (Some Session) (PDict kvs) p = Inr (stored n e p)"
  using assms find_by_email [of e "users p"]
  by (cases "List.find (\<lambda>u. PStr (email u) = PStr e) (users p)")
     (auto simp: sql_replay_def query_first_def add_commit_def stored_def)

lemma sql_process_message_ok:
  assumes "reachable p" and "statements_ok p"
    and "map_of kvs ''name'' = Some (PStr n)" and "map_of kvs ''email'' = Some (PStr e)"
  shows "sql_process_message \<lparr>headers = h, body = Text (PDict kvs)\<rparr> p = (Ack, stored n e p)"
  using assms sql_replay_ok [OF assms(2-4)]
  by (simp add: sql_process_message_def get_session_reachable)

lemma create_user_from_queue_ok:
  assumes "reachable p" and "statements_ok p"
    and "map_of kvs ''name'' = Some (PStr n)" and "map_of kvs ''email'' = Some (PStr e)"
  shows "create_user_from_queue (PDict kvs) p = (True, stored n e p)"
  using assms find_by_email [of e "users p"]
  by (cases "List.find (\<lambda>u. PStr (email u) = PStr e) (users p)")
     (auto simp: create_user_from_queue_def create_user_from_queue_try_def
        get_session_reachable query_first_def add_commit_def stored_def)

text \<open>
  Claim C7. Replaying the same user-creation message twice against a relational store
  that answers leaves exactly one row with the message's email, and both replays report
  success: the dedicated consumer acknowledges both deliveries, the polling worker's
  \<^verbatim>\<open>_create_user_from_queue\<close> returns \<^verbatim>\<open>True\<close> both times, and the second replay writes
  nothing. The table is taken with its uniqueness constraint on \<^verbatim>\<open>email\<close> in force. The
  consumer reads \<^verbatim>\<open>name\<close> and \<^verbatim>\<open>email\<close> from the message itself, the worker from what the
  envelope holds under \<^verbatim>\<open>data\<close>; \<open>kvs\<close> is that dictionary.
\<close>

theorem replay_twice_one_row:
  assumes up: "reachable p" and ok: "statements_ok p"
    and uniq: "distinct (map email (users p))"
    and n: "map_of kvs ''name'' = Some (PStr n)" and e: "map_of kvs ''email'' = Some (PStr e)"
  shows "(case sql_process_message \<lparr>headers = h, body = Text (PDict kvs)\<rparr> p of
            (v1, p1) \<Rightarrow>
              (case sql_process_message \<lparr>headers = h, body = Text (PDict kvs)\<rparr> p1 of
                 (v2, p2) \<Rightarrow>
                   v1 = Ack \<and> v2 = Ack \<and> p2 = p1
                   \<and> length (filter (\<lambda>u. email u = e) (users p2)) = 1))
       \<and> (case create_user_from_queue (PDict kvs) p of
            (s1, p1) \<Rightarrow>
              (case create_user_from_queue (PDict kvs) p1 of
                 (s2, p2) \<Rightarrow>
                   s1 \<and> s2 \<and> p2 = p1
                   \<and> length (filter (\<lambda>u. email u = e) (users p2)) = 1))"
proof -
  note st = stored_once [OF uniq, where n = n and e = e]
  have up': "reachable (stored n e p)" and ok': "statements_ok (stored n e p)"
    using up ok st(4,5) by simp_all
  show ?thesis
    using st(2,3)
    by (simp add: sql_process_message_ok [OF up ok n e] sql_process_message_ok [OF up' ok' n e]
        create_user_from_queue_ok [OF up ok n e] create_user_from_queue_ok [OF up' ok' n e])
qed

theorem replay_twice_one_row_witness:
  "reachable (pg healthy) \<and> statements_ok (pg healthy)
   \<and> sql_process_message \<lparr>headers = None, body = Text ana\<rparr> (pg healthy)
       = (Ack, (pg healthy)\<lparr>users := [\<lparr>name = ''Ana'', email = ''a@x.com''\<rparr>]\<rparr>)
   \<and> sql_process_message \<lparr>headers = None, body = Text ana\<rparr>
        ((pg healthy)\<lparr>users := [\<lparr>name = ''Ana'', email = ''a@x.com''\<rparr>]\<rparr>)
       = (Ack, (pg healthy)\<lparr>users := [\<lparr>name = ''Ana'', email = ''a@x.com''\<rparr>]\<rparr>)
   \<and> create_user_from_queue ana (pg healthy)
       = (True, (pg healthy)\<lparr>users := [\<lparr>name = ''Ana'', email = ''a@x.com''\<rparr>]\<rparr>)
   \<and> create_user_from_queue ana ((pg healthy)\<lparr>users := [\<lparr>name = ''Ana'', email = ''a@x.com''\<rparr>]\<rparr>)
       = (True, (pg healthy)\<lparr>users := [\<lparr>name = ''Ana'', email = ''a@x.com''\<rparr>]\<rparr>)"
  using replay_twice_one_row [of "pg healthy" "[(''name'', PStr ''Ana''), (''email'', PStr ''a@x.com'')]"
      "''Ana''" "''a@x.com''" None]
  by (simp add: healthy_def ana_def sql_process_message_def create_user_from_queue_def
      create_user_from_queue_try_def sql_replay_def get_session_with_retry_def
      test_connection_def query_first_def add_commit_def eval_nat_numeral
      split: prod.splits)

section \<open>Startup of the dedicated consumers\<close>









section \<open>Which queue each component uses\<close>

declare users_queue_loop.simps [simp del] logs_queue_loop.simps [simp del]

lemma send_message_ops:
  "ops (snd (send_message q m r)) = ops r \<or>
   (\<exists>b. ops (snd (send_message q m r)) = ops r @ [Publish q b])"
  by (auto simp: send_message_def send_message_try_def declare_queue_def queue_declare_def
      ensure_connection_def connect_def basic_publish_def Let_def
      split: if_splits sum.splits option.splits prod.splits)

lemma receive_message_ops:
  "ops (snd (receive_message q r)) = ops r \<or> ops (snd (receive_message q r)) = ops r @ [Get q]"
  by (auto simp: receive_message_def receive_message_try_def declare_queue_def queue_declare_def
      ensure_connection_def connect_def basic_get_def Let_def
      split: if_splits sum.splits option.splits prod.splits list.splits body.splits)

lemma requeue_with_retry_ops:
  assumes "requeue_with_retry q m w = Inr w'"
  shows "ops (rabbitmq w') = ops (rabbitmq w)
       \<or> (\<exists>b. ops (rabbitmq w') = ops (rabbitmq w) @ [Publish q b])
       \<or> (\<exists>b. ops (rabbitmq w') = ops (rabbitmq w) @ [Publish (q @ ''_dead_letter'') b])"
proof -
  from assms obtain q' m' where q': "q' = q \<or> q' = q @ ''_dead_letter''"
    and w': "w' = w\<lparr>rabbitmq := snd (send_message q' m' (rabbitmq w))\<rparr>"
    by (auto simp: requeue_with_retry_def Let_def split: sum.splits if_splits)
  from send_message_ops [of q' m' "rabbitmq w"] q' w' show ?thesis
    by auto
qed

definition step_result :: "loop \<Rightarrow> world" where
  "step_result l = (case l of Break w \<Rightarrow> w | Continue w \<Rightarrow> w)"

lemma users_queue_step_ops:
  "\<exists>new. ops (rabbitmq (step_result (users_queue_step q w))) = ops (rabbitmq w) @ new
     \<and> set new \<subseteq> {Get q} \<union> range (Publish q) \<union> range (Publish (q @ ''_dead_letter''))"
proof -
  obtain message r where rc: "receive_message q (rabbitmq w) = (message, r)"
    by (cases "receive_message q (rabbitmq w)")
  from receive_message_ops [of q "rabbitmq w"] rc
  have r: "ops r = ops (rabbitmq w) \<or> ops r = ops (rabbitmq w) @ [Get q]" by simp
  show ?thesis
    using r rc
    by (auto simp: users_queue_step_def step_result_def Let_def
        split: option.splits sum.splits prod.splits if_splits
        dest!: requeue_with_retry_ops)
qed


lemma logs_queue_step_ops:
  "\<exists>new. ops (rabbitmq (step_result (logs_queue_step q w))) = ops (rabbitmq w) @ new
     \<and> set new \<subseteq> {Get q} \<union> range (Publish q) \<union> range (Publish (q @ ''_dead_letter''))"
proof -
  obtain message r where rc: "receive_message q (rabbitmq w) = (message, r)"
    by (cases "receive_message q (rabbitmq w)")
  from receive_message_ops [of q "rabbitmq w"] rc
  have r: "ops r = ops (rabbitmq w) \<or> ops r = ops (rabbitmq w) @ [Get q]" by simp
  show ?thesis
    using r rc
    by (auto simp: logs_queue_step_def step_result_def Let_def
        split: option.splits sum.splits prod.splits if_splits
        dest!: requeue_with_retry_ops)
qed

lemma users_queue_loop_ops:
  "\<exists>new. ops (rabbitmq (users_queue_loop q w)) = ops (rabbitmq w) @ new
     \<and> set new \<subseteq> {Get q} \<union> range (Publish q) \<union> range (Publish (q @ ''_dead_letter''))"
proof (induction q w rule: users_queue_loop.induct)
  case (1 q w)
  from users_queue_step_ops [of q w] obtain new1
    where n1: "ops (rabbitmq (step_result (users_queue_step q w))) = ops (rabbitmq w) @ new1"
      "set new1 \<subseteq> {Get q} \<union> range (Publish q) \<union> range (Publish (q @ ''_dead_letter''))"
    by blast
  show ?case
  proof (cases "users_queue_step q w")
    case (Break w')
    with n1 show ?thesis
      by (subst users_queue_loop.simps) (auto simp: step_result_def)
  next
    case (Continue w')
    from "1.IH" [OF Continue] obtain new2
      where n2: "ops (rabbitmq (users_queue_loop q w')) = ops (rabbitmq w') @ new2"
        "set new2 \<subseteq> {Get q} \<union> range (Publish q) \<union> range (Publish (q @ ''_dead_letter''))"
      by blast
    from n1 Continue have "ops (rabbitmq w') = ops (rabbitmq w) @ new1"
      by (simp add: step_result_def)
    with n2 n1(2) Continue show ?thesis
      by (subst users_queue_loop.simps) (intro exI [of _ "new1 @ new2"], auto)
  qed
qed

lemma logs_queue_loop_ops:
  "\<exists>new. ops (rabbitmq (logs_queue_loop q w)) = ops (rabbitmq w) @ new
     \<and> set new \<subseteq> {Get q} \<union> range (Publish q) \<union> range (Publish (q @ ''_dead_letter''))"
proof (induction q w rule: logs_queue_loop.induct)
  case (1 q w)
  from logs_queue_step_ops [of q w] obtain new1
    where n1: "ops (rabbitmq (step_result (logs_queue_step q w))) = ops (rabbitmq w) @ new1"
      "set new1 \<subseteq> {Get q} \<union> range (Publish q) \<union> range (Publish (q @ ''_dead_letter''))"
    by blast
  show ?case
  proof (cases "logs_queue_step q w")
    case (Break w')
    with n1 show ?thesis
      by (subst logs_queue_loop.simps) (auto simp: step_result_def)
  next
    case (Continue w')
    from "1.IH" [OF Continue] obtain new2
      where n2: "ops (rabbitmq (logs_queue_loop q w')) = ops (rabbitmq w') @ new2"
        "set new2 \<subseteq> {Get q} \<union> range (Publish q) \<union> range (Publish (q @ ''_dead_letter''))"
      by blast
    from n1 Continue have "ops (rabbitmq w') = ops (rabbitmq w) @ new1"
      by (simp add: step_result_def)
    with n2 n1(2) Continue show ?thesis
      by (subst logs_queue_loop.simps) (intro exI [of _ "new1 @ new2"], auto)
  qed
qed

lemma send_to_fallback_queue_ops:
  "ops (rabbitmq (snd (send_to_fallback_queue q data op w))) = ops (rabbitmq w) \<or>
   (\<exists>b. ops (rabbitmq (snd (send_to_fallback_queue q data op w))) = ops (rabbitmq w) @ [Publish q b])"
  using send_message_ops
    [of q "PDict [(''operation_type'', PStr op), (''timestamp'', PStr (now w)), (''data'', data),
                  (''retry_count'', PInt 0)]" "rabbitmq w"]
  by (auto simp: send_to_fallback_queue_def Let_def split: prod.splits)

lemma fallback_queue_users [simp]: "fallback_queue ''users'' = Inr ''users_fallback_queue''"
  by (simp add: fallback_queue_def FALLBACK_QUEUES_def)

lemma fallback_queue_logs [simp]: "fallback_queue ''logs'' = Inr ''logs_fallback_queue''"
  by (simp add: fallback_queue_def FALLBACK_QUEUES_def)

text \<open>
  Claim C1, as stated, fails: the dedicated consumers subscribe to \<^verbatim>\<open>sql_fallback\<close> and
  \<^verbatim>\<open>nosql_fallback\<close>, while the producer publishes a failed user write to
  \<^verbatim>\<open>users_fallback_queue\<close>. After a user creation during an outage the envelope sits in
  \<^verbatim>\<open>users_fallback_queue\<close> and the SQL consumer's queue is empty.
\<close>

theorem consumer_queue_differs_counterexample:
  "fst (create_user ''Ana'' ''a@x.com'' outage) = FallbackUsed ''users_fallback_queue''
   \<and> queues (rabbitmq (snd (create_user ''Ana'' ''a@x.com'' outage))) sql_queue_name = []
   \<and> queues (rabbitmq (snd (create_user ''Ana'' ''a@x.com'' outage))) ''users_fallback_queue'' \<noteq> []
   \<and> sql_queue_name \<noteq> ''users_fallback_queue''
   \<and> nosql_queue_name \<noteq> ''logs_fallback_queue''"
  by (simp add: create_user_def create_user_primary_def get_session_with_retry_def
      test_connection_def outage_def idle_broker_def send_to_fallback_queue_def
      send_message_def send_message_try_def ensure_connection_def connect_def
      declare_queue_def queue_declare_def basic_publish_def sql_queue_name_def
      nosql_queue_name_def eval_nat_numeral Let_def)

text \<open>The broker calls of the write endpoints and of the polling worker stay on the
  queues of \<open>FALLBACK_QUEUES\<close> and their dead-letter queues, none of which is a queue of
  the dedicated consumers.\<close>

lemma broker_calls_stay_on_fallback_queues:
  "(ops (rabbitmq (snd (create_user n e w))) = ops (rabbitmq w)
      \<or> (\<exists>b. ops (rabbitmq (snd (create_user n e w)))
               = ops (rabbitmq w) @ [Publish ''users_fallback_queue'' b]))
   \<and> (ops (rabbitmq (snd (create_log a d w))) = ops (rabbitmq w)
      \<or> (\<exists>b. ops (rabbitmq (snd (create_log a d w)))
               = ops (rabbitmq w) @ [Publish ''logs_fallback_queue'' b]))
   \<and> (case process_users_queue w of
         Inl x \<Rightarrow> False
       | Inr w' \<Rightarrow>
           (\<exists>new. ops (rabbitmq w') = ops (rabbitmq w) @ new
              \<and> set new \<subseteq> {Get ''users_fallback_queue''}
                    \<union> range (Publish ''users_fallback_queue'')
                    \<union> range (Publish ''users_fallback_queue_dead_letter'')))
   \<and> (case process_logs_queue w of
         Inl x \<Rightarrow> False
       | Inr w' \<Rightarrow>
           (\<exists>new. ops (rabbitmq w') = ops (rabbitmq w) @ new
              \<and> set new \<subseteq> {Get ''logs_fallback_queue''}
                    \<union> range (Publish ''logs_fallback_queue'')
                    \<union> range (Publish ''logs_fallback_queue_dead_letter'')))
   \<and> sql_queue_name \<notin> snd ` set FALLBACK_QUEUES
   \<and> nosql_queue_name \<notin> snd ` set FALLBACK_QUEUES
   \<and> sql_queue_name \<notin> {''users_fallback_queue_dead_letter'', ''logs_fallback_queue_dead_letter''}
   \<and> nosql_queue_name \<notin> {''users_fallback_queue_dead_letter'', ''logs_fallback_queue_dead_letter''}"
proof -
  have u: "ops (rabbitmq (snd (create_user n e w))) = ops (rabbitmq w)
      \<or> (\<exists>b. ops (rabbitmq (snd (create_user n e w)))
               = ops (rabbitmq w) @ [Publish ''users_fallback_queue'' b])"
    using send_to_fallback_queue_ops
      [of "''users_fallback_queue''" "PDict [(''name'', PStr n), (''email'', PStr e)]" "''create_user''" w]
    by (auto simp: create_user_def Let_def split: sum.splits prod.splits if_splits)
  have l: "ops (rabbitmq (snd (create_log a d w))) = ops (rabbitmq w)
      \<or> (\<exists>b. ops (rabbitmq (snd (create_log a d w)))
               = ops (rabbitmq w) @ [Publish ''logs_fallback_queue'' b])"
    using send_to_fallback_queue_ops
      [of "''logs_fallback_queue''" "PDict [(''action'', PStr a), (''details'', d)]" "''create_log''" w]
    by (auto simp: create_log_def Let_def split: sum.splits prod.splits if_splits)
  have pu: "case process_users_queue w of
         Inl x \<Rightarrow> False
       | Inr w' \<Rightarrow>
           (\<exists>new. ops (rabbitmq w') = ops (rabbitmq w) @ new
              \<and> set new \<subseteq> {Get ''users_fallback_queue''}
                    \<union> range (Publish ''users_fallback_queue'')
                    \<union> range (Publish ''users_fallback_queue_dead_letter''))"
    using users_queue_loop_ops [of "''users_fallback_queue''" w]
    by (simp add: process_users_queue_def)
  have pl: "case process_logs_queue w of
         Inl x \<Rightarrow> False
       | Inr w' \<Rightarrow>
           (\<exists>new. ops (rabbitmq w') = ops (rabbitmq w) @ new
              \<and> set new \<subseteq> {Get ''logs_fallback_queue''}
                    \<union> range (Publish ''logs_fallback_queue'')
                    \<union> range (Publish ''logs_fallback_queue_dead_letter''))"
    using logs_queue_loop_ops [of "''logs_fallback_queue''" w]
    by (simp add: process_logs_queue_def split: sum.splits)
  have names: "sql_queue_name \<notin> snd ` set FALLBACK_QUEUES"
    "nosql_queue_name \<notin> snd ` set FALLBACK_QUEUES"
    "sql_queue_name \<notin> {''users_fallback_queue_dead_letter'', ''logs_fallback_queue_dead_letter''}"
    "nosql_queue_name \<notin> {''users_fallback_queue_dead_letter'', ''logs_fallback_queue_dead_letter''}"
    by (simp_all add: sql_queue_name_def nosql_queue_name_def FALLBACK_QUEUES_def)
  from u l pu pl names show ?thesis by blast
qed

section \<open>The retry counter of the dedicated consumer\<close>

lemma first_delivery_requeued:
  "sql_process_message first_delivery store_rejects = (Nack True, store_rejects)"
  by (simp add: sql_process_message_def first_delivery_def store_rejects_def ana_def
      get_session_with_retry_def test_connection_def sql_replay_def query_first_def
      retry_verdict_def eval_nat_numeral)

text \<open>
  Claim C2 says that in the dedicated-consumer path a transient replay failure at
  \<^verbatim>\<open>retry_count = r < 3\<close> gives \<^verbatim>\<open>retry_count = r + 1\<close> on the next delivery. The callback
  reads the counter from the headers and refuses the delivery with requeue, but nothing
  writes the counter: the delivery comes back with the headers it had. Here a delivery
  with \<^verbatim>\<open>retry_count = 0\<close> meets a store whose statements fail; after any number of
  deliveries it is still at the head of the queue with \<^verbatim>\<open>retry_count = 0\<close>, so the limit
  of 3 that the callback tests is never reached.
\<close>

theorem requeue_leaves_retry_count:
  "sql_process_message first_delivery store_rejects = (Nack True, store_rejects)
   \<and> (sql_consume ^^ n) ([first_delivery], store_rejects) = ([first_delivery], store_rejects)
   \<and> map_option (\<lambda>h. map_of h ''retry_count'') (headers (hd (fst ((sql_consume ^^ n) ([first_delivery], store_rejects)))))
       = Some (Some (PInt 0))"
proof -
  have step: "sql_consume ([first_delivery], store_rejects) = ([first_delivery], store_rejects)"
    by (simp add: sql_consume_def first_delivery_requeued)
  have run: "(sql_consume ^^ n) ([first_delivery], store_rejects) = ([first_delivery], store_rejects)"
    by (induction n) (simp_all add: step)
  show ?thesis
    by (simp add: run first_delivery_requeued) (simp add: first_delivery_def)
qed

section \<open>Envelopes the polling worker loses\<close>

lemma receive_message_empty:
  assumes "ready r" and "queues r q = []"
  shows "fst (receive_message q r) = None"
    and "queues (snd (receive_message q r)) = queues r"
    and "ops (snd (receive_message q r)) = ops r @ [Get q]"
    and "ready (snd (receive_message q r))"
  using assms
  by (auto simp: ready_def receive_message_def receive_message_try_def declare_queue_def
      queue_declare_def ensure_connection_def connect_def basic_get_def Let_def
      split: if_splits)

lemma users_queue_step_empty:
  assumes "ready (rabbitmq w)" and "queues (rabbitmq w) q = []"
  shows "users_queue_step q w = Break (w\<lparr>rabbitmq := snd (receive_message q (rabbitmq w))\<rparr>)"
proof -
  obtain r1 where "receive_message q (rabbitmq w) = (None, r1)"
    using receive_message_empty(1) [OF assms] by (cases "receive_message q (rabbitmq w)") auto
  then show ?thesis by (simp add: users_queue_step_def)
qed

lemma users_queue_step_other_operation:
  assumes head: "queues (rabbitmq w) q = Text (PDict kvs) # rest"
    and r: "ready (rabbitmq w)"
    and ne: "kvs \<noteq> []"
    and other: "map_of kvs ''operation_type'' \<noteq> Some (PStr ''create_user'')"
  shows "users_queue_step q w = Continue (w\<lparr>rabbitmq := snd (receive_message q (rabbitmq w))\<rparr>)"
proof -
  obtain r1 where rc: "receive_message q (rabbitmq w) = (Some (PDict kvs), r1)"
    using receive_message_ready(1) [OF r head] by (cases "receive_message q (rabbitmq w)") auto
  from rc ne other show ?thesis
    by (auto simp: users_queue_step_def Let_def split: option.splits)
qed

text \<open>
  Claim C3 says that an envelope pulled by the polling worker is never lost without being
  re-published or dead-lettered, also when its \<^verbatim>\<open>operation_type\<close> is not the one its queue
  expects. \<^verbatim>\<open>basic_get\<close> with \<^verbatim>\<open>auto_ack\<close> removes the envelope as it is read, and
  \<^verbatim>\<open>_process_users_queue\<close> has no branch for another operation type. Here a
  \<^verbatim>\<open>create_log\<close> envelope waits in \<^verbatim>\<open>users_fallback_queue\<close> with both stores healthy; after
  the drain every queue is empty (dead-letter queues included), the only broker calls
  were two gets, and neither store has received anything.
\<close>

theorem unexpected_operation_is_lost:
  "case process_users_queue stray of
     Inl x \<Rightarrow> False
   | Inr w' \<Rightarrow>
       queues (rabbitmq w') = (\<lambda>q. [])
       \<and> ops (rabbitmq w') = [Get ''users_fallback_queue'', Get ''users_fallback_queue'']
       \<and> users (pg w') = [] \<and> logs (mongo w') = []"
proof -
  let ?q = "''users_fallback_queue''"
  let ?kvs = "[(''operation_type'', PStr ''create_log''),
               (''timestamp'', PStr ''2024-05-01T09:00:00''),
               (''data'', log_payload), (''retry_count'', PInt 0)]"
  let ?w1 = "stray\<lparr>rabbitmq := snd (receive_message ?q (rabbitmq stray))\<rparr>"
  let ?w2 = "?w1\<lparr>rabbitmq := snd (receive_message ?q (rabbitmq ?w1))\<rparr>"
  have head: "queues (rabbitmq stray) ?q = Text (PDict ?kvs) # []"
    by (simp add: stray_def queued_def healthy_def idle_broker_def envelope_def)
  have r: "ready (rabbitmq stray)"
    by (simp add: stray_def queued_def healthy_def idle_broker_def ready_def)
  have s1: "users_queue_step ?q stray = Continue ?w1"
    by (rule users_queue_step_other_operation [OF head r]) simp_all
  note rcv = receive_message_ready [OF r head]
  have r1: "ready (rabbitmq ?w1)" using rcv(4) by simp
  have e1: "queues (rabbitmq ?w1) ?q = []" using rcv(2) by simp
  have s2: "users_queue_step ?q ?w1 = Break ?w2"
    by (rule users_queue_step_empty [OF r1 e1])
  note rcv2 = receive_message_empty [OF r1 e1]
  have loop: "users_queue_loop ?q stray = ?w2"
    by (subst users_queue_loop.simps, simp only: s1 loop.case)
       (subst users_queue_loop.simps, simp only: s2 loop.case)
  have q2: "queues (rabbitmq ?w2) = (\<lambda>q. [])"
    using rcv2(2) rcv(2)
    by (auto simp: stray_def queued_def healthy_def idle_broker_def)
  have o2: "ops (rabbitmq ?w2) = [Get ?q, Get ?q]"
    using rcv2(3) rcv(3) by (simp add: stray_def queued_def healthy_def idle_broker_def)
  have st: "users (pg ?w2) = []" "logs (mongo ?w2) = []"
    by (simp_all add: stray_def queued_def healthy_def)
  have "process_users_queue stray = Inr ?w2"
    by (simp add: process_users_queue_def loop check_database_health_def)
       (simp add: stray_def queued_def healthy_def)
  with q2 o2 st show ?thesis by simp
qed

section \<open>Payloads without a required field\<close>








section \<open>The polling worker drains the producer's queue\<close>

text \<open>An envelope as the producer and the worker write it: a non-empty JSON object
  whose \<^verbatim>\<open>retry_count\<close>, when present, is a number.\<close>

definition well_formed :: "body \<Rightarrow> bool" where
  "well_formed b =
     (case b of
        Text (PDict kvs) \<Rightarrow>
          kvs \<noteq> [] \<and> dumps (PDict kvs) = Some (PDict kvs)
          \<and> (case py_get (PDict kvs) ''retry_count'' (PInt 0) of
                Inl x \<Rightarrow> False
              | Inr c \<Rightarrow> (case py_int c of Inl x \<Rightarrow> False | Inr n \<Rightarrow> True))
      | _ \<Rightarrow> False)"

lemma well_formedE:
  assumes "well_formed b"
  obtains kvs c n where "b = Text (PDict kvs)" "kvs \<noteq> []" "dumps (PDict kvs) = Some (PDict kvs)"
    "py_get (PDict kvs) ''retry_count'' (PInt 0) = Inr c" "py_int c = Inr n"
  using assms
  by (auto simp: well_formed_def split: body.splits pyval.splits sum.splits option.splits)

lemma update_nonempty: "AList.update k v kvs \<noteq> []"
  by (cases kvs) auto

lemma well_formed_bumped:
  assumes "dumps (PDict kvs) = Some (PDict kvs)"
  shows "well_formed (Text (bumped kvs n t))"
proof -
  have "dumps (bumped kvs n t) = Some (bumped kvs n t)"
    unfolding bumped_def by (intro dumps_update assms) simp_all
  then show ?thesis
    using bumped_fields(1) [of kvs n t "PInt 0"]
    by (simp add: well_formed_def bumped_def update_nonempty del: py_get.simps)
qed

lemma receive_message_ops_ready:
  assumes "ready r"
  shows "ops (snd (receive_message q r)) = ops r @ [Get q]"
    and "ready (snd (receive_message q r))"
  using assms
  by (auto simp: ready_def receive_message_def receive_message_try_def declare_queue_def
      queue_declare_def ensure_connection_def connect_def basic_get_def Let_def
      split: if_splits list.splits sum.splits)

lemma replayed_user_is_dict:
  "fst (create_user_from_queue data p) \<Longrightarrow> \<exists>d. data = PDict d"
  by (cases data)
     (auto simp: create_user_from_queue_def create_user_from_queue_try_def split: sum.splits)

lemma replayed_log_is_dict:
  "fst (create_log_from_queue data t m) \<Longrightarrow> \<exists>d. data = PDict d"
  by (cases data)
     (auto simp: create_log_from_queue_def create_log_from_queue_try_def split: sum.splits)


lemma users_queue_step_after_receive:
  "\<exists>new. ops (rabbitmq (step_result (users_queue_step q w)))
            = ops (snd (receive_message q (rabbitmq w))) @ new"
proof -
  obtain message r where rc: "receive_message q (rabbitmq w) = (message, r)"
    by (cases "receive_message q (rabbitmq w)")
  then show ?thesis
    by (auto simp: users_queue_step_def step_result_def Let_def
        split: option.splits sum.splits prod.splits if_splits
        dest!: requeue_with_retry_ops)
qed

lemma users_queue_loop_first_get:
  assumes "ready (rabbitmq w)"
  shows "\<exists>more. ops (rabbitmq (users_queue_loop q w)) = ops (rabbitmq w) @ Get q # more"
proof -
  from users_queue_step_after_receive [of q w] receive_message_ops_ready(1) [OF assms, of q]
  obtain new where s: "ops (rabbitmq (step_result (users_queue_step q w)))
                        = ops (rabbitmq w) @ Get q # new"
    by auto
  show ?thesis
  proof (cases "users_queue_step q w")
    case (Break w')
    with s show ?thesis
      by (subst users_queue_loop.simps) (simp add: step_result_def)
  next
    case (Continue w')
    from users_queue_loop_ops [of q w'] obtain new2
      where "ops (rabbitmq (users_queue_loop q w')) = ops (rabbitmq w') @ new2" by blast
    with s Continue show ?thesis
      by (subst users_queue_loop.simps) (simp add: step_result_def)
  qed
qed

lemma users_queue_step_well_formed:
  assumes r: "ready (rabbitmq w)"
    and head: "queues (rabbitmq w) q = b # rest"
    and wf: "well_formed b" and wfs: "list_all well_formed rest"
  shows "\<exists>w'. users_queue_step q w = Continue w' \<and> ready (rabbitmq w')
           \<and> list_all well_formed (queues (rabbitmq w') q)"
proof -
  from wf obtain kvs c n where b: "b = Text (PDict kvs)" and ne: "kvs \<noteq> []"
    and j: "dumps (PDict kvs) = Some (PDict kvs)"
    and c: "py_get (PDict kvs) ''retry_count'' (PInt 0) = Inr c" and n: "py_int c = Inr n"
    by (rule well_formedE)
  from head b have head': "queues (rabbitmq w) q = Text (PDict kvs) # rest" by simp
  let ?w1 = "w\<lparr>rabbitmq := snd (receive_message q (rabbitmq w))\<rparr>"
  note rcv = receive_message_ready [OF r head']
  have r1: "ready (rabbitmq ?w1)" and q1: "queues (rabbitmq ?w1) q = rest"
    using rcv(2,4) by simp_all
  obtain data where data: "py_get (PDict kvs) ''data'' (PDict []) = Inr data"
    by (cases "map_of kvs ''data''") auto
  show ?thesis
  proof (cases "map_of kvs ''operation_type'' = Some (PStr ''create_user'')")
    case False
    obtain r0 where rc: "receive_message q (rabbitmq w) = (Some (PDict kvs), r0)"
      using rcv(1) by (cases "receive_message q (rabbitmq w)") auto
    from rc ne False have "users_queue_step q w = Continue ?w1"
      by (auto simp: users_queue_step_def Let_def split: option.splits)
    with r1 q1 wfs show ?thesis by simp
  next
    case op: True
    show ?thesis
    proof (cases "fst (create_user_from_queue data (pg w))")
      case False
      from users_queue_step_failed_replay [OF head' r data op False]
      have s: "users_queue_step q w =
           (case requeue_with_retry q (PDict kvs) ?w1 of
              Inl x \<Rightarrow> Break ?w1 | Inr w3 \<Rightarrow> Continue w3)" .
      from requeue_with_retry_ready [OF c n j r1, of q] obtain w3
        where w3: "requeue_with_retry q (PDict kvs) ?w1 = Inr w3" "ready (rabbitmq w3)"
          "if n + 1 \<le> 5
           then queues (rabbitmq w3) =
                  (queues (rabbitmq ?w1))(q := queues (rabbitmq ?w1) q @ [Text (bumped kvs n (now ?w1))])
           else queues (rabbitmq w3) =
                  (queues (rabbitmq ?w1))(q @ ''_dead_letter'' :=
                     queues (rabbitmq ?w1) (q @ ''_dead_letter'') @ [Text (PDict kvs)])"
        by (auto split: sum.splits)
      have "list_all well_formed (queues (rabbitmq w3) q)"
        using w3(3) q1 wfs well_formed_bumped [OF j, of n "now ?w1"]
        by (auto split: if_splits)
      with s w3 show ?thesis by simp
    next
      case True
      obtain r0 where rc: "receive_message q (rabbitmq w) = (Some (PDict kvs), r0)"
        using rcv(1) by (cases "receive_message q (rabbitmq w)") auto
      from replayed_user_is_dict [OF True] obtain d where d: "data = PDict d" by blast
      obtain s where res: "create_user_from_queue data (pg w) = (True, s)"
        using True by (cases "create_user_from_queue data (pg w)") auto
      from rc ne data op res d have "users_queue_step q w = Continue (?w1\<lparr>pg := s\<rparr>)"
        by (simp add: users_queue_step_def Let_def split: option.splits)
      with r1 q1 wfs show ?thesis by simp
    qed
  qed
qed

lemma users_queue_loop_drains:
  "ready (rabbitmq w) \<Longrightarrow> list_all well_formed (queues (rabbitmq w) q) \<Longrightarrow>
     queues (rabbitmq (users_queue_loop q w)) q = []"
proof (induction q w rule: users_queue_loop.induct)
  case (1 q w)
  show ?case
  proof (cases "queues (rabbitmq w) q")
    case Nil
    obtain r0 where rc: "receive_message q (rabbitmq w) = (None, r0)"
      using receive_message_empty(1) [OF "1.prems"(1) Nil]
      by (cases "receive_message q (rabbitmq w)") auto
    then have "users_queue_step q w = Break (w\<lparr>rabbitmq := r0\<rparr>)"
      by (simp add: users_queue_step_def)
    moreover have "queues r0 q = []"
      using receive_message_empty(2) [OF "1.prems"(1) Nil] rc Nil by simp
    ultimately show ?thesis
      by (subst users_queue_loop.simps) simp
  next
    case (Cons b rest)
    with "1.prems" have "well_formed b" "list_all well_formed rest" by simp_all
    from users_queue_step_well_formed [OF "1.prems"(1) Cons this] obtain w'
      where w': "users_queue_step q w = Continue w'" "ready (rabbitmq w')"
        "list_all well_formed (queues (rabbitmq w') q)"
      by blast
    from "1.IH" [OF w'(1) w'(2,3)] w'(1) show ?thesis
      by (subst users_queue_loop.simps) simp
  qed
qed

lemma logs_queue_step_after_receive:
  "\<exists>new. ops (rabbitmq (step_result (logs_queue_step q w)))
            = ops (snd (receive_message q (rabbitmq w))) @ new"
proof -
  obtain message r where rc: "receive_message q (rabbitmq w) = (message, r)"
    by (cases "receive_message q (rabbitmq w)")
  then show ?thesis
    by (auto simp: logs_queue_step_def step_result_def Let_def
        split: option.splits sum.splits prod.splits if_splits
        dest!: requeue_with_retry_ops)
qed

lemma logs_queue_loop_first_get:
  assumes "ready (rabbitmq w)"
  shows "\<exists>more. ops (rabbitmq (logs_queue_loop q w)) = ops (rabbitmq w) @ Get q # more"
proof -
  from logs_queue_step_after_receive [of q w] receive_message_ops_ready(1) [OF assms, of q]
  obtain new where s: "ops (rabbitmq (step_result (logs_queue_step q w)))
                        = ops (rabbitmq w) @ Get q # new"
    by auto
  show ?thesis
  proof (cases "logs_queue_step q w")
    case (Break w')
    with s show ?thesis
      by (subst logs_queue_loop.simps) (simp add: step_result_def)
  next
    case (Continue w')
    from logs_queue_loop_ops [of q w'] obtain new2
      where "ops (rabbitmq (logs_queue_loop q w')) = ops (rabbitmq w') @ new2" by blast
    with s Continue show ?thesis
      by (subst logs_queue_loop.simps) (simp add: step_result_def)
  qed
qed

lemma logs_queue_step_well_formed:
  assumes r: "ready (rabbitmq w)"
    and head: "queues (rabbitmq w) q = b # rest"
    and wf: "well_formed b" and wfs: "list_all well_formed rest"
  shows "\<exists>w'. logs_queue_step q w = Continue w' \<and> ready (rabbitmq w')
           \<and> list_all well_formed (queues (rabbitmq w') q)"
proof -
  from wf obtain kvs c n where b: "b = Text (PDict kvs)" and ne: "kvs \<noteq> []"
    and j: "dumps (PDict kvs) = Some (PDict kvs)"
    and c: "py_get (PDict kvs) ''retry_count'' (PInt 0) = Inr c" and n: "py_int c = Inr n"
    by (rule well_formedE)
  from head b have head': "queues (rabbitmq w) q = Text (PDict kvs) # rest" by simp
  let ?w1 = "w\<lparr>rabbitmq := snd (receive_message q (rabbitmq w))\<rparr>"
  note rcv = receive_message_ready [OF r head']
  have r1: "ready (rabbitmq ?w1)" and q1: "queues (rabbitmq ?w1) q = rest"
    using rcv(2,4) by simp_all
  obtain data where data: "py_get (PDict kvs) ''data'' (PDict []) = Inr data"
    by (cases "map_of kvs ''data''") auto
  show ?thesis
  proof (cases "map_of kvs ''operation_type'' = Some (PStr ''create_log'')")
    case False
    obtain r0 where rc: "receive_message q (rabbitmq w) = (Some (PDict kvs), r0)"
      using rcv(1) by (cases "receive_message q (rabbitmq w)") auto
    from rc ne False have "logs_queue_step q w = Continue ?w1"
      by (auto simp: logs_queue_step_def Let_def split: option.splits)
    with r1 q1 wfs show ?thesis by simp
  next
    case op: True
    show ?thesis
    proof (cases "fst (create_log_from_queue data (now w) (mongo w))")
      case False
      from logs_queue_step_failed_replay [OF head' r data op False]
      have s: "logs_queue_step q w =
           (case requeue_with_retry q (PDict kvs) ?w1 of
              Inl x \<Rightarrow> Break ?w1 | Inr w3 \<Rightarrow> Continue w3)" .
      from requeue_with_retry_ready [OF c n j r1, of q] obtain w3
        where w3: "requeue_with_retry q (PDict kvs) ?w1 = Inr w3" "ready (rabbitmq w3)"
          "if n + 1 \<le> 5
           then queues (rabbitmq w3) =
                  (queues (rabbitmq ?w1))(q := queues (rabbitmq ?w1) q @ [Text (bumped kvs n (now ?w1))])
           else queues (rabbitmq w3) =
                  (queues (rabbitmq ?w1))(q @ ''_dead_letter'' :=
                     queues (rabbitmq ?w1) (q @ ''_dead_letter'') @ [Text (PDict kvs)])"
        by (auto split: sum.splits)
      have "list_all well_formed (queues (rabbitmq w3) q)"
        using w3(3) q1 wfs well_formed_bumped [OF j, of n "now ?w1"]
        by (auto split: if_splits)
      with s w3 show ?thesis by simp
    next
      case True
      obtain r0 where rc: "receive_message q (rabbitmq w) = (Some (PDict kvs), r0)"
        using rcv(1) by (cases "receive_message q (rabbitmq w)") auto
      from replayed_log_is_dict [OF True] obtain d where d: "data = PDict d" by blast
      obtain s where res: "create_log_from_queue data (now w) (mongo w) = (True, s)"
        using True by (cases "create_log_from_queue data (now w) (mongo w)") auto
      from rc ne data op res d have "logs_queue_step q w = Continue (?w1\<lparr>mongo := s\<rparr>)"
        by (simp add: logs_queue_step_def Let_def split: option.splits)
      with r1 q1 wfs show ?thesis by simp
    qed
  qed
qed

lemma logs_queue_loop_drains:
  "ready (rabbitmq w) \<Longrightarrow> list_all well_formed (queues (rabbitmq w) q) \<Longrightarrow>
     queues (rabbitmq (logs_queue_loop q w)) q = []"
proof (induction q w rule: logs_queue_loop.induct)
  case (1 q w)
  show ?case
  proof (cases "queues (rabbitmq w) q")
    case Nil
    obtain r0 where rc: "receive_message q (rabbitmq w) = (None, r0)"
      using receive_message_empty(1) [OF "1.prems"(1) Nil]
      by (cases "receive_message q (rabbitmq w)") auto
    then have "logs_queue_step q w = Break (w\<lparr>rabbitmq := r0\<rparr>)"
      by (simp add: logs_queue_step_def)
    moreover have "queues r0 q = []"
      using receive_message_empty(2) [OF "1.prems"(1) Nil] rc Nil by simp
    ultimately show ?thesis
      by (subst logs_queue_loop.simps) simp
  next
    case (Cons b rest)
    with "1.prems" have "well_formed b" "list_all well_formed rest" by simp_all
    from logs_queue_step_well_formed [OF "1.prems"(1) Cons this] obtain w'
      where w': "logs_queue_step q w = Continue w'" "ready (rabbitmq w')"
        "list_all well_formed (queues (rabbitmq w') q)"
      by blast
    from "1.IH" [OF w'(1) w'(2,3)] w'(1) show ?thesis
      by (subst logs_queue_loop.simps) simp
  qed
qed

lemma create_user_falls_back:
  assumes r: "ready (rabbitmq w)" and down: "\<not> reachable (pg w)"
  shows "fst (create_user n e w) = FallbackUsed ''users_fallback_queue''"
    and "queues (rabbitmq (snd (create_user n e w))) =
           (queues (rabbitmq w))(''users_fallback_queue'' :=
              queues (rabbitmq w) ''users_fallback_queue''
                @ [Text (PDict [(''operation_type'', PStr ''create_user''),
                                (''timestamp'', PStr (now w)),
                                (''data'', PDict [(''name'', PStr n), (''email'', PStr e)]),
                                (''retry_count'', PInt 0)])])"
proof -
  let ?env = "PDict [(''operation_type'', PStr ''create_user''), (''timestamp'', PStr (now w)),
                     (''data'', PDict [(''name'', PStr n), (''email'', PStr e)]),
                     (''retry_count'', PInt 0)]"
  have d: "dumps ?env = Some ?env" by simp
  have p: "create_user_primary n e (pg w) = Inl OperationalError"
    using down
    by (simp add: create_user_primary_def get_session_with_retry_def test_connection_def
        eval_nat_numeral)
  note sent = send_message_ready [OF r d, of "''users_fallback_queue''"]
  obtain r' where sm: "send_message ''users_fallback_queue'' ?env (rabbitmq w) = (True, r')"
    using sent(1) by (cases "send_message ''users_fallback_queue'' ?env (rabbitmq w)") auto
  have cu: "create_user n e w = (FallbackUsed ''users_fallback_queue'', w\<lparr>rabbitmq := r'\<rparr>)"
    using p sm by (simp add: create_user_def send_to_fallback_queue_def Let_def)
  show "fst (create_user n e w) = FallbackUsed ''users_fallback_queue''"
    by (simp add: cu)
  show "queues (rabbitmq (snd (create_user n e w))) =
           (queues (rabbitmq w))(''users_fallback_queue'' :=
              queues (rabbitmq w) ''users_fallback_queue'' @ [Text ?env])"
    using sent(2) sm by (simp add: cu)
qed

lemma create_log_falls_back:
  assumes r: "ready (rabbitmq w)" and down: "\<not> insert_ok (mongo w)"
    and json: "dumps d = Some d"
  shows "fst (create_log a d w) = FallbackUsed ''logs_fallback_queue''"
    and "queues (rabbitmq (snd (create_log a d w))) =
           (queues (rabbitmq w))(''logs_fallback_queue'' :=
              queues (rabbitmq w) ''logs_fallback_queue''
                @ [Text (PDict [(''operation_type'', PStr ''create_log''),
                                (''timestamp'', PStr (now w)),
                                (''data'', PDict [(''action'', PStr a), (''details'', d)]),
                                (''retry_count'', PInt 0)])])"
proof -
  let ?env = "PDict [(''operation_type'', PStr ''create_log''), (''timestamp'', PStr (now w)),
                     (''data'', PDict [(''action'', PStr a), (''details'', d)]),
                     (''retry_count'', PInt 0)]"
  have d: "dumps ?env = Some ?env" using json by simp
  note sent = send_message_ready [OF r d, of "''logs_fallback_queue''"]
  obtain r' where sm: "send_message ''logs_fallback_queue'' ?env (rabbitmq w) = (True, r')"
    using sent(1) by (cases "send_message ''logs_fallback_queue'' ?env (rabbitmq w)") auto
  have cl: "create_log a d w = (FallbackUsed ''logs_fallback_queue'', w\<lparr>rabbitmq := r'\<rparr>)"
    using down sm by (simp add: create_log_def insert_one_def send_to_fallback_queue_def Let_def)
  show "fst (create_log a d w) = FallbackUsed ''logs_fallback_queue''"
    by (simp add: cl)
  show "queues (rabbitmq (snd (create_log a d w))) =
           (queues (rabbitmq w))(''logs_fallback_queue'' :=
              queues (rabbitmq w) ''logs_fallback_queue'' @ [Text ?env])"
    using sent(2) sm by (simp add: cl)
qed

lemma process_users_queue_drains:
  assumes "ready (rabbitmq w)" and "check_database_health (pg w)"
  shows "case process_users_queue w of
           Inl x \<Rightarrow> False
         | Inr w' \<Rightarrow>
             (\<exists>more. ops (rabbitmq w') = ops (rabbitmq w) @ Get ''users_fallback_queue'' # more)
             \<and> (list_all well_formed (queues (rabbitmq w) ''users_fallback_queue'') \<longrightarrow>
                  queues (rabbitmq w') ''users_fallback_queue'' = [])"
  using assms users_queue_loop_first_get [OF assms(1), of "''users_fallback_queue''"]
    users_queue_loop_drains [OF assms(1), of "''users_fallback_queue''"]
  by (simp add: process_users_queue_def)

lemma process_logs_queue_drains:
  assumes "ready (rabbitmq w)" and "mongo_probe (mongo w)"
  shows "case process_logs_queue w of
           Inl x \<Rightarrow> False
         | Inr w' \<Rightarrow>
             (\<exists>more. ops (rabbitmq w') = ops (rabbitmq w) @ Get ''logs_fallback_queue'' # more)
             \<and> (list_all well_formed (queues (rabbitmq w) ''logs_fallback_queue'') \<longrightarrow>
                  queues (rabbitmq w') ''logs_fallback_queue'' = [])"
  using assms logs_queue_loop_first_get [OF assms(1), of "''logs_fallback_queue''"]
    logs_queue_loop_drains [OF assms(1), of "''logs_fallback_queue''"]
  by (simp add: process_logs_queue_def mongo_probe_def split: sum.splits)

text \<open>
  Claim C1, amended. For each domain the polling worker drains the queue the producer
  publishes failed writes to. A write that finds its store down is published to
  \<^verbatim>\<open>users_fallback_queue\<close> (users) or \<^verbatim>\<open>logs_fallback_queue\<close> (logs), at the end of that
  queue, when the broker works. With the store healthy and the broker working,
  \<^verbatim>\<open>_process_users_queue\<close> and \<^verbatim>\<open>_process_logs_queue\<close> start with a get on that same queue,
  and when the queue holds well-formed envelopes they leave it empty. Whatever the
  state of the broker and the stores, the only broker call of a write endpoint is a
  publish to that queue and the only broker calls of the worker are gets on it and
  publishes to it or to its dead-letter queue. The queues of the dedicated consumers,
  \<^verbatim>\<open>sql_fallback\<close> and \<^verbatim>\<open>nosql_fallback\<close>, are none of the queues in \<open>FALLBACK_QUEUES\<close> nor
  of their dead-letter queues: neither the producer nor the polling worker touches
  them.
\<close>

theorem worker_drains_producer_queue:
  "(ops (rabbitmq (snd (create_user n e w))) = ops (rabbitmq w)
      \<or> (\<exists>b. ops (rabbitmq (snd (create_user n e w)))
               = ops (rabbitmq w) @ [Publish ''users_fallback_queue'' b]))
   \<and> (ops (rabbitmq (snd (create_log a d w))) = ops (rabbitmq w)
      \<or> (\<exists>b. ops (rabbitmq (snd (create_log a d w)))
               = ops (rabbitmq w) @ [Publish ''logs_fallback_queue'' b]))
   \<and> (case process_users_queue w of
         Inl x \<Rightarrow> False
       | Inr w' \<Rightarrow>
           (\<exists>new. ops (rabbitmq w') = ops (rabbitmq w) @ new
              \<and> set new \<subseteq> {Get ''users_fallback_queue''}
                    \<union> range (Publish ''users_fallback_queue'')
                    \<union> range (Publish ''users_fallback_queue_dead_letter'')))
   \<and> (case process_logs_queue w of
         Inl x \<Rightarrow> False
       | Inr w' \<Rightarrow>
           (\<exists>new. ops (rabbitmq w') = ops (rabbitmq w) @ new
              \<and> set new \<subseteq> {Get ''logs_fallback_queue''}
                    \<union> range (Publish ''logs_fallback_queue'')
                    \<union> range (Publish ''logs_fallback_queue_dead_letter'')))
   \<and> sql_queue_name \<notin> snd ` set FALLBACK_QUEUES
   \<and> nosql_queue_name \<notin> snd ` set FALLBACK_QUEUES
   \<and> sql_queue_name \<notin> {''users_fallback_queue_dead_letter'', ''logs_fallback_queue_dead_letter''}
   \<and> nosql_queue_name \<notin> {''users_fallback_queue_dead_letter'', ''logs_fallback_queue_dead_letter''}
   \<and> (ready (rabbitmq w) \<and> \<not> reachable (pg w) \<longrightarrow>
         fst (create_user n e w) = FallbackUsed ''users_fallback_queue''
         \<and> queues (rabbitmq (snd (create_user n e w))) =
             (queues (rabbitmq w))(''users_fallback_queue'' :=
                queues (rabbitmq w) ''users_fallback_queue''
                  @ [Text (PDict [(''operation_type'', PStr ''create_user''),
                                  (''timestamp'', PStr (now w)),
                                  (''data'', PDict [(''name'', PStr n), (''email'', PStr e)]),
                                  (''retry_count'', PInt 0)])]))
   \<and> (ready (rabbitmq w) \<and> \<not> insert_ok (mongo w) \<and> dumps d = Some d \<longrightarrow>
         fst (create_log a d w) = FallbackUsed ''logs_fallback_queue''
         \<and> queues (rabbitmq (snd (create_log a d w))) =
             (queues (rabbitmq w))(''logs_fallback_queue'' :=
                queues (rabbitmq w) ''logs_fallback_queue''
                  @ [Text (PDict [(''operation_type'', PStr ''create_log''),
                                  (''timestamp'', PStr (now w)),
                                  (''data'', PDict [(''action'', PStr a), (''details'', d)]),
                                  (''retry_count'', PInt 0)])]))
   \<and> (ready (rabbitmq w) \<and> check_database_health (pg w) \<longrightarrow>
         (case process_users_queue w of
            Inl x \<Rightarrow> False
          | Inr w' \<Rightarrow>
              (\<exists>more. ops (rabbitmq w') = ops (rabbitmq w) @ Get ''users_fallback_queue'' # more)
              \<and> (list_all well_formed (queues (rabbitmq w) ''users_fallback_queue'') \<longrightarrow>
                   queues (rabbitmq w') ''users_fallback_queue'' = [])))
   \<and> (ready (rabbitmq w) \<and> mongo_probe (mongo w) \<longrightarrow>
         (case process_logs_queue w of
            Inl x \<Rightarrow> False
          | Inr w' \<Rightarrow>
              (\<exists>more. ops (rabbitmq w') = ops (rabbitmq w) @ Get ''logs_fallback_queue'' # more)
              \<and> (list_all well_formed (queues (rabbitmq w) ''logs_fallback_queue'') \<longrightarrow>
                   queues (rabbitmq w') ''logs_fallback_queue'' = [])))"
  using broker_calls_stay_on_fallback_queues [of n e w a d]
    create_user_falls_back [of w n e] create_log_falls_back [of w d a]
    process_users_queue_drains [of w] process_logs_queue_drains [of w]
  by blast

theorem worker_drains_producer_queue_witness:
  "ready (rabbitmq outage) \<and> \<not> reachable (pg outage)
   \<and> fst (create_user ''Ana'' ''a@x.com'' outage) = FallbackUsed ''users_fallback_queue''
   \<and> queues (rabbitmq (snd (create_user ''Ana'' ''a@x.com'' outage))) ''users_fallback_queue''
       = [Text (PDict [(''operation_type'', PStr ''create_user''),
                       (''timestamp'', PStr (now outage)),
                       (''data'', ana), (''retry_count'', PInt 0)])]
   \<and> ready (rabbitmq pending_user) \<and> check_database_health (pg pending_user)
   \<and> list_all well_formed (queues (rabbitmq pending_user) ''users_fallback_queue'')
   \<and> (case process_users_queue pending_user of
         Inl x \<Rightarrow> False
       | Inr w' \<Rightarrow>
           hd (ops (rabbitmq w')) = Get ''users_fallback_queue''
           \<and> queues (rabbitmq w') ''users_fallback_queue'' = [])"
proof -
  have o: "ready (rabbitmq outage)" "\<not> reachable (pg outage)"
    "queues (rabbitmq outage) ''users_fallback_queue'' = []"
    by (simp_all add: outage_def idle_broker_def ready_def)
  have w: "ready (rabbitmq pending_user)" "check_database_health (pg pending_user)"
    "ops (rabbitmq pending_user) = []"
    by (simp_all add: pending_user_def queued_def healthy_def idle_broker_def ready_def
        check_database_health_def)
  have wf: "list_all well_formed (queues (rabbitmq pending_user) ''users_fallback_queue'')"
    by (simp add: pending_user_def queued_def healthy_def idle_broker_def envelope_def ana_def
        well_formed_def)
  from worker_drains_producer_queue [of "''Ana''" "''a@x.com''" outage "''login''" "PDict []"]
    worker_drains_producer_queue [of "''Ana''" "''a@x.com''" pending_user "''login''" "PDict []"]
  show ?thesis
    using o w wf
    by (auto simp: ana_def split: sum.splits)
qed

end
